theory Spec2Isabelle
  imports Main "HOL-Library.Char_ord" "HOL-Library.List_Lexorder"
begin

section \<open>Values of the Python program\<close>

text \<open>
  The exceptions that the modelled code can raise. \<open>TypeError\<close> is what Python raises when
  an offset-naive \<open>datetime\<close> is ordered against an offset-aware one, \<open>OverflowError\<close>
  what \<open>datetime + timedelta\<close> raises when the result leaves the years 1 to 9999,
  \<open>KeyError\<close> a failed \<open>d[k]\<close>, and \<open>IndexError\<close> a failed \<open>xs[-1]\<close>.
\<close>

datatype py_error = TypeError | OverflowError | KeyError | IndexError

text \<open>
  A \<open>datetime\<close> value. \<open>Naive w\<close> has no \<open>tzinfo\<close>; \<open>Aware w off\<close> carries a fixed UTC
  offset. \<open>w\<close> is the wall-clock reading (the fields year to microsecond) counted in
  microseconds from \<open>0001-01-01 00:00:00\<close>, the value of \<open>datetime.min\<close>; \<open>off\<close> is the
  offset in microseconds.
\<close>

datatype datetime = Naive int | Aware int int

definition datetime_min :: datetime where
  "datetime_min = Naive 0"

text \<open>
  Ordering of two \<open>datetime\<close> values: naive values compare by their fields, aware values by
  their UTC instants, and a naive value against an aware one raises \<open>TypeError\<close>.
\<close>

fun dt_lt :: "datetime \<Rightarrow> datetime \<Rightarrow> py_error + bool" where
  "dt_lt (Naive a) (Naive b) = Inr (a < b)"
| "dt_lt (Aware a oa) (Aware b ob) = Inr (a - oa < b - ob)"
| "dt_lt (Naive a) (Aware b ob) = Inl TypeError"
| "dt_lt (Aware a oa) (Naive b) = Inl TypeError"

fun dt_ge :: "datetime \<Rightarrow> datetime \<Rightarrow> py_error + bool" where
  "dt_ge (Naive a) (Naive b) = Inr (b \<le> a)"
| "dt_ge (Aware a oa) (Aware b ob) = Inr (b - ob \<le> a - oa)"
| "dt_ge (Naive a) (Aware b ob) = Inl TypeError"
| "dt_ge (Aware a oa) (Naive b) = Inl TypeError"

text \<open>
  \<open>datetime.fromisoformat\<close> belongs to the Python library, not to the program, and its
  grammar differs between Python versions. The program's functions therefore take the parser
  as a parameter: \<open>None\<close> stands for \<open>ValueError\<close>.
\<close>

type_synonym iso_parser = "string \<Rightarrow> datetime option"

text \<open>\<open>s.replace('Z', '+00:00')\<close>: every \<open>Z\<close> of the string is replaced.\<close>

definition replace_Z :: "string \<Rightarrow> string" where
  "replace_Z s = concat (map (\<lambda>c. if c = CHR ''Z'' then ''+00:00'' else [c]) s)"

text \<open>
  A value read with \<open>record.get(key)\<close> is \<open>None\<close> (key missing or \<open>null\<close>) or a string.
  \<open>truthy\<close> is Python's truth test on such a value.
\<close>

definition truthy :: "string option \<Rightarrow> bool" where
  "truthy v = (case v of None \<Rightarrow> False | Some s \<Rightarrow> s \<noteq> [])"

section \<open>\<open>WebRawTimestampsExporter.parse_timestamp\<close>\<close>

definition parse_timestamp :: "iso_parser \<Rightarrow> string option \<Rightarrow> datetime" where
  "parse_timestamp parser ts_str =
     (case ts_str of
        None \<Rightarrow> datetime_min
      | Some s \<Rightarrow>
          if s = [] then datetime_min
          else (case parser (replace_Z s) of
                  None \<Rightarrow> datetime_min
                | Some d \<Rightarrow> d))"

section \<open>\<open>sorted\<close> with a \<open>datetime\<close> key\<close>

text \<open>
  \<open>sorted(xs, key=k)\<close> is stable and orders the keys with \<open><\<close> only. It is modelled as
  a stable insertion sort whose comparisons may raise: the first raising comparison aborts
  the sort. The result of a stable sort does not depend on the algorithm, and neither does
  the failure: a comparison raises exactly when one key is naive and the other aware, and
  a comparison sort of a list with keys of both kinds must compare two keys of different
  kinds (\<open>py_sorted_eq\<close> below states both facts for the model).
\<close>

fun insort_dt :: "('a \<Rightarrow> datetime) \<Rightarrow> 'a \<Rightarrow> 'a list \<Rightarrow> py_error + 'a list" where
  "insort_dt k x [] = Inr [x]"
| "insort_dt k x (y # ys) =
     (case dt_lt (k y) (k x) of
        Inl e \<Rightarrow> Inl e
      | Inr lt \<Rightarrow>
          if lt then (case insort_dt k x ys of Inl e \<Rightarrow> Inl e | Inr zs \<Rightarrow> Inr (y # zs))
          else Inr (x # y # ys))"

fun py_sorted :: "('a \<Rightarrow> datetime) \<Rightarrow> 'a list \<Rightarrow> py_error + 'a list" where
  "py_sorted k [] = Inr []"
| "py_sorted k (x # xs) =
     (case py_sorted k xs of Inl e \<Rightarrow> Inl e | Inr ys \<Rightarrow> insort_dt k x ys)"

text \<open>\<open>xs[-1]\<close>: the last element, \<open>IndexError\<close> on the empty list.\<close>

definition py_last :: "'a list \<Rightarrow> py_error + 'a" where
  "py_last xs = (case rev xs of [] \<Rightarrow> Inl IndexError | x # _ \<Rightarrow> Inr x)"

section \<open>Records\<close>

text \<open>One element of \<open>history_data\<close>, with the four keys the program reads.\<close>

record history_record =
  source :: "string option"
  workstation_name :: "string option"
  history_station_start_time :: "string option"
  history_station_end_time :: "string option"

text \<open>An entry \<open>{'start': ..., 'end': ...}\<close> of a list in the \<open>stations\<close> dictionary.\<close>

record station_time =
  start :: "string option"
  end_time :: "string option"

text \<open>The dictionary that \<open>process_raw_timestamps\<close> returns.\<close>

record milestones =
  serial_number :: string
  vi1_end :: "string option"
  vi1_next_station :: "string option"
  vi1_next_start :: "string option"
  upgrade_end :: "string option"
  bbd_assy_station :: "string option"
  bbd_assy_start :: "string option"
  bbd_assy_end :: "string option"
  fla_chiflash_station :: "string option"
  fla_chiflash_start :: "string option"
  packing_end :: "string option"
  shipping_start :: "string option"

definition empty_result :: "string \<Rightarrow> milestones" where
  "empty_result sn =
     \<lparr>serial_number = sn, vi1_end = None, vi1_next_station = None, vi1_next_start = None,
      upgrade_end = None, bbd_assy_station = None, bbd_assy_start = None,
      bbd_assy_end = None, fla_chiflash_station = None, fla_chiflash_start = None,
      packing_end = None, shipping_start = None\<rparr>"

type_synonym stations = "string \<rightharpoonup> station_time list"

section \<open>\<open>WebRawTimestampsExporter.process_raw_timestamps\<close>\<close>

subsection \<open>Lines 91 to 95: the workstation filter\<close>

definition is_workstation :: "history_record \<Rightarrow> bool" where
  "is_workstation r = (source r = Some ''workstation'' \<and> truthy (workstation_name r))"

subsection \<open>Lines 113 to 140: the current cycle\<close>

definition start_key :: "iso_parser \<Rightarrow> history_record \<Rightarrow> datetime" where
  "start_key parser x = parse_timestamp parser (history_station_start_time x)"

definition receive_records :: "history_record list \<Rightarrow> history_record list" where
  "receive_records workstation_data =
     filter (\<lambda>r. workstation_name r = Some ''RECEIVE'') workstation_data"

text \<open>
  The list comprehension of lines 133 to 136: every record is compared with the boundary,
  and a comparison that raises aborts the comprehension.
\<close>

fun from_cycle :: "iso_parser \<Rightarrow> datetime \<Rightarrow> history_record list \<Rightarrow> py_error + history_record list" where
  "from_cycle parser t [] = Inr []"
| "from_cycle parser t (r # rs) =
     (case dt_ge (start_key parser r) t of
        Inl e \<Rightarrow> Inl e
      | Inr keep \<Rightarrow>
          (case from_cycle parser t rs of
             Inl e \<Rightarrow> Inl e
           | Inr ks \<Rightarrow> Inr (if keep then r # ks else ks)))"

definition current_cycle :: "iso_parser \<Rightarrow> history_record list \<Rightarrow> py_error + history_record list" where
  "current_cycle parser workstation_data =
     (if receive_records workstation_data = [] then Inr workstation_data
      else
        (case py_sorted (start_key parser) (receive_records workstation_data) of
           Inl e \<Rightarrow> Inl e
         | Inr sorted_receives \<Rightarrow>
             (case py_last sorted_receives of
                Inl e \<Rightarrow> Inl e
              | Inr most_recent_receive \<Rightarrow>
                  from_cycle parser (start_key parser most_recent_receive)
                    workstation_data)))"

subsection \<open>Lines 142 to 154: grouping by station\<close>

text \<open>
  \<open>record['workstation_name']\<close> raises \<open>KeyError\<close> on a record without that key; the filter
  of line 94 has removed such records before this loop runs.
\<close>

fun build_stations :: "history_record list \<Rightarrow> stations \<Rightarrow> py_error + stations" where
  "build_stations [] st = Inr st"
| "build_stations (r # rs) st =
     (case workstation_name r of
        None \<Rightarrow> Inl KeyError
      | Some station \<Rightarrow>
          build_stations rs
            (st(station \<mapsto>
               (case st station of None \<Rightarrow> [] | Some ts \<Rightarrow> ts) @
               [\<lparr>start = history_station_start_time r,
                 end_time = history_station_end_time r\<rparr>])))"

subsection \<open>The scan for the first visit after a reference time\<close>

text \<open>
  The loops of lines 189, 195, 225, 231, 237, 257, 263 and 285 have one shape:
  \<open>for t in stations[name]: if t['start'] and ref and t['start'] > ref: ...; break\<close>.
  Strings are compared as Python compares them, character by character: \<open><\<close> on
  \<open>string\<close> is the lexicographic order of the character codes.
  \<open>first_after\<close> returns the \<open>start\<close> string and the \<open>end\<close> of the first visit that passes
  the test.
\<close>

definition is_after :: "string option \<Rightarrow> string option \<Rightarrow> bool" where
  "is_after s ref = (truthy s \<and> truthy ref \<and> the ref < the s)"

fun first_after :: "station_time list \<Rightarrow> string option \<Rightarrow> (string \<times> string option) option" where
  "first_after [] ref = None"
| "first_after (t # ts) ref =
     (if is_after (start t) ref then Some (the (start t), end_time t)
      else first_after ts ref)"

text \<open>
  \<open>if name in stations: for ...: candidates.append((name, start, end)); break\<close>: the
  candidates that one station contributes, none or one.
\<close>

definition candidate :: "stations \<Rightarrow> string \<Rightarrow> string option \<Rightarrow> (string \<times> string \<times> string option) list" where
  "candidate st name ref =
     (case st name of
        None \<Rightarrow> []
      | Some ts \<Rightarrow> (case first_after ts ref of None \<Rightarrow> [] | Some (s, e) \<Rightarrow> [(name, s, e)]))"

text \<open>\<open>candidates.sort(key=lambda x: x[1])\<close>: a stable sort on the start strings.\<close>

definition sort_candidates :: "(string \<times> string \<times> string option) list \<Rightarrow> (string \<times> string \<times> string option) list" where
  "sort_candidates cs = sort_key (\<lambda>c. fst (snd c)) cs"

subsection \<open>Lines 221 to 247: BBD, ASSY1 or Assembley after the matching UPGRADE\<close>

definition bbd_assy_step :: "stations \<Rightarrow> string option \<Rightarrow> milestones \<Rightarrow> milestones" where
  "bbd_assy_step st matching_end result =
     (case sort_candidates
             (candidate st ''BBD'' matching_end @ candidate st ''ASSY1'' matching_end @
              candidate st ''Assembley'' matching_end) of
        [] \<Rightarrow> result
      | c # _ \<Rightarrow>
          result\<lparr>bbd_assy_station := Some (fst c), bbd_assy_start := Some (fst (snd c)),
                 bbd_assy_end := snd (snd c)\<rparr>)"

subsection \<open>Lines 210 to 247: the UPGRADE visit that was chosen\<close>

definition upgrade_step :: "stations \<Rightarrow> string option \<Rightarrow> milestones \<Rightarrow> py_error + milestones" where
  "upgrade_step st next_station_start result =
     (case st ''UPGRADE'' of
        None \<Rightarrow> Inl KeyError
      | Some ts \<Rightarrow>
          (case find (\<lambda>u. start u = next_station_start) ts of
             None \<Rightarrow> Inr result
           | Some matching_upgrade \<Rightarrow>
               Inr (bbd_assy_step st (end_time matching_upgrade)
                      (result\<lparr>upgrade_end := end_time matching_upgrade\<rparr>))))"

subsection \<open>Lines 172 to 247: VI1 and the station after it\<close>

definition end_key :: "iso_parser \<Rightarrow> station_time \<Rightarrow> datetime" where
  "end_key parser x = parse_timestamp parser (end_time x)"

definition next_station :: "stations \<Rightarrow> string option \<Rightarrow> (string \<times> string) option" where
  "next_station st vi1e =
     (case sort_candidates (candidate st ''Disassembly'' vi1e @ candidate st ''UPGRADE'' vi1e) of
        [] \<Rightarrow> None
      | c # _ \<Rightarrow> Some (fst c, fst (snd c)))"

text \<open>
  Lines 181 to 247, with \<open>vi1e\<close> the value of the variable \<open>vi1_end\<close>: the result fields
  of VI1 are written, and the UPGRADE branch is entered when the next station is UPGRADE.
\<close>

definition after_vi1 :: "stations \<Rightarrow> string option \<Rightarrow> milestones \<Rightarrow> py_error + milestones" where
  "after_vi1 st vi1e result =
     (case next_station st vi1e of
        None \<Rightarrow>
          Inr (result\<lparr>vi1_end := vi1e, vi1_next_station := None, vi1_next_start := None\<rparr>)
      | Some (next_station_name, next_station_start) \<Rightarrow>
          if next_station_name = ''UPGRADE''
          then upgrade_step st (Some next_station_start)
                 (result\<lparr>vi1_end := vi1e, vi1_next_station := Some next_station_name,
                         vi1_next_start := Some next_station_start\<rparr>)
          else Inr (result\<lparr>vi1_end := vi1e, vi1_next_station := Some next_station_name,
                           vi1_next_start := Some next_station_start\<rparr>))"

definition vi1_step :: "iso_parser \<Rightarrow> stations \<Rightarrow> milestones \<Rightarrow> py_error + milestones" where
  "vi1_step parser st result =
     (case st ''VI1'' of
        None \<Rightarrow> Inr result
      | Some ts \<Rightarrow>
          (case py_sorted (end_key parser) ts of
             Inl e \<Rightarrow> Inl e
           | Inr vi1_visits \<Rightarrow>
               (case py_last vi1_visits of
                  Inl e \<Rightarrow> Inl e
                | Inr most_recent \<Rightarrow> after_vi1 st (end_time most_recent) result)))"

subsection \<open>Lines 249 to 271: FLA or CHIFLASH\<close>

definition fla_chiflash_step :: "stations \<Rightarrow> milestones \<Rightarrow> milestones" where
  "fla_chiflash_step st result =
     (if truthy (bbd_assy_station result) \<and> truthy (bbd_assy_end result)
      then
        (case sort_candidates
                (candidate st ''FLA'' (bbd_assy_end result) @
                 candidate st ''CHIFLASH'' (bbd_assy_end result)) of
           [] \<Rightarrow> result
         | c # _ \<Rightarrow>
             result\<lparr>fla_chiflash_station := Some (fst c),
                    fla_chiflash_start := Some (fst (snd c))\<rparr>)
      else result)"

subsection \<open>Lines 273 to 288: PACKING and SHIPPING\<close>

text \<open>
  Lines 281 to 288, with \<open>pe\<close> the value of the variable \<open>packing_end\<close>.
\<close>

definition after_packing :: "stations \<Rightarrow> string option \<Rightarrow> milestones \<Rightarrow> milestones" where
  "after_packing st pe result =
     (case st ''SHIPPING'' of
        None \<Rightarrow> result\<lparr>packing_end := pe\<rparr>
      | Some ss \<Rightarrow>
          (case first_after ss pe of
             None \<Rightarrow> result\<lparr>packing_end := pe\<rparr>
           | Some (s, e) \<Rightarrow> result\<lparr>packing_end := pe, shipping_start := Some s\<rparr>))"

definition packing_step :: "iso_parser \<Rightarrow> stations \<Rightarrow> milestones \<Rightarrow> py_error + milestones" where
  "packing_step parser st result =
     (case st ''PACKING'' of
        None \<Rightarrow> Inr result
      | Some ts \<Rightarrow>
          (case py_sorted (end_key parser) ts of
             Inl e \<Rightarrow> Inl e
           | Inr packing_visits \<Rightarrow>
               (case py_last packing_visits of
                  Inl e \<Rightarrow> Inl e
                | Inr most_recent \<Rightarrow> Inr (after_packing st (end_time most_recent) result))))"

subsection \<open>Lines 156 to 290: the milestone walk over the grouped stations\<close>

definition milestone_walk :: "iso_parser \<Rightarrow> string \<Rightarrow> stations \<Rightarrow> py_error + milestones" where
  "milestone_walk parser sn st =
     (case vi1_step parser st (empty_result sn) of
        Inl e \<Rightarrow> Inl e
      | Inr result \<Rightarrow> packing_step parser st (fla_chiflash_step st result))"

subsection \<open>Lines 69 to 290: the whole function\<close>

definition process_raw_timestamps :: "iso_parser \<Rightarrow> string \<Rightarrow> history_record list \<Rightarrow> py_error + milestones" where
  "process_raw_timestamps parser sn history_data =
     (if history_data = [] then Inr (empty_result sn)
      else if filter is_workstation history_data = [] then Inr (empty_result sn)
      else
        (case current_cycle parser (filter is_workstation history_data) of
           Inl e \<Rightarrow> Inl e
         | Inr cycle_data \<Rightarrow>
             (case build_stations cycle_data Map.empty of
                Inl e \<Rightarrow> Inl e
              | Inr st \<Rightarrow> milestone_walk parser sn st)))"

section \<open>The \<open>datetime\<close> library\<close>

text \<open>
  The proleptic Gregorian calendar of the \<open>datetime\<close> module: day 1 is \<open>0001-01-01\<close>,
  and \<open>3652059\<close> is the ordinal of \<open>9999-12-31\<close>.
\<close>

definition is_leap :: "int \<Rightarrow> bool" where
  "is_leap y = (if y mod 400 = 0 then True else if y mod 100 = 0 then False else y mod 4 = 0)"

definition days_before_year :: "int \<Rightarrow> int" where
  "days_before_year y = (y - 1) * 365 + (y - 1) div 4 - (y - 1) div 100 + (y - 1) div 400"

definition days_in_month :: "int \<Rightarrow> int \<Rightarrow> int" where
  "days_in_month y m =
     (if m = 2 then (if is_leap y then 29 else 28)
      else if m = 4 \<or> m = 6 \<or> m = 9 \<or> m = 11 then 30 else 31)"

definition days_before_month :: "int \<Rightarrow> int \<Rightarrow> int" where
  "days_before_month y m = sum_list (map (days_in_month y) [1..m - 1])"

definition ymd2ord :: "int \<Rightarrow> int \<Rightarrow> int \<Rightarrow> int" where
  "ymd2ord y m d = days_before_year y + days_before_month y m + d"

definition us_per_second :: int where "us_per_second = 1000000"
definition us_per_hour :: int where "us_per_hour = 3600 * us_per_second"
definition us_per_day :: int where "us_per_day = 24 * us_per_hour"
definition max_ordinal :: int where "max_ordinal = 3652059"

text \<open>The year, month and day of an ordinal, as \<open>datetime._ord2ymd\<close> computes them.\<close>

definition ord2ymd :: "int \<Rightarrow> int \<times> int \<times> int" where
  "ord2ymd ordinal =
     (let n = ordinal - 1;
          n400 = n div 146097; r400 = n mod 146097;
          n100 = r400 div 36524; r100 = r400 mod 36524;
          n4 = r100 div 1461; r4 = r100 mod 1461;
          n1 = r4 div 365; r1 = r4 mod 365;
          y = n400 * 400 + 1 + n100 * 100 + n4 * 4 + n1
      in if n1 = 4 \<or> n100 = 4 then (y - 1, 12, 31)
         else
           (let month = (r1 + 50) div 32;
                preceding = days_before_month y month
            in if preceding > r1
               then (y, month - 1, r1 - (preceding - days_in_month y (month - 1)) + 1)
               else (y, month, r1 - preceding + 1)))"

text \<open>\<open>dt.replace(tzinfo=None)\<close> keeps the wall-clock fields and drops the offset.\<close>

fun replace_tzinfo_None :: "datetime \<Rightarrow> datetime" where
  "replace_tzinfo_None (Naive w) = Naive w"
| "replace_tzinfo_None (Aware w off) = Naive w"

text \<open>
  \<open>dt + timedelta(hours=h)\<close>: the result must lie between \<open>datetime.min\<close> and
  \<open>datetime.max\<close>, and \<open>OverflowError\<close> is raised otherwise.
\<close>

fun add_hours :: "datetime \<Rightarrow> int \<Rightarrow> py_error + datetime" where
  "add_hours (Naive w) h =
     (if 0 \<le> w + h * us_per_hour \<and> w + h * us_per_hour < max_ordinal * us_per_day
      then Inr (Naive (w + h * us_per_hour)) else Inl OverflowError)"
| "add_hours (Aware w off) h =
     (if 0 \<le> w + h * us_per_hour \<and> w + h * us_per_hour < max_ordinal * us_per_day
      then Inr (Aware (w + h * us_per_hour) off) else Inl OverflowError)"

definition digit_char :: "int \<Rightarrow> char" where
  "digit_char d = char_of (48 + d)"

definition pad2 :: "int \<Rightarrow> string" where
  "pad2 n = [digit_char (n div 10 mod 10), digit_char (n mod 10)]"

definition pad4 :: "int \<Rightarrow> string" where
  "pad4 n = pad2 (n div 100) @ pad2 n"

fun wall :: "datetime \<Rightarrow> int" where
  "wall (Naive w) = w"
| "wall (Aware w off) = w"

text \<open>
  \<open>dt.strftime('%Y-%m-%d %H:%M:%S')\<close>, with the year written in four digits. From year
  1000 on that is what every platform writes; for earlier years the C library decides
  whether \<open>%Y\<close> is padded with zeros, and nothing below is stated about them.
\<close>

definition strftime :: "datetime \<Rightarrow> string" where
  "strftime dt =
     (let (y, m, d) = ord2ymd (wall dt div us_per_day + 1);
          secs = (wall dt mod us_per_day) div us_per_second
      in pad4 y @ ''-'' @ pad2 m @ ''-'' @ pad2 d @ '' '' @
         pad2 (secs div 3600) @ '':'' @ pad2 (secs div 60 mod 60) @ '':'' @ pad2 (secs mod 60))"

subsection \<open>A parser for the common layouts of \<open>datetime.fromisoformat\<close>\<close>

text \<open>
  \<open>fromisoformat\<close> below reads the layouts \<open>YYYY-MM-DD\<close> and
  \<open>YYYY-MM-DD*HH:MM:SS[.fff[fff]][+HH:MM|-HH:MM]\<close> (\<open>*\<close> is any one character), which every
  version of the library reads the same way, and checks the ranges of the fields as the
  library does. It is narrower than the library: it answers \<open>None\<close> on the further layouts
  that the library reads (a time of hours only or of hours and minutes, an offset with
  seconds, other fraction lengths and the basic format of later versions). It stands for
  the parser only in the examples, whose timestamps are all of the layouts above; the
  general theorems hold for every parser.
\<close>

definition digit_val :: "char \<Rightarrow> int option" where
  "digit_val c =
     (if CHR ''0'' \<le> c \<and> c \<le> CHR ''9'' then Some (of_char c - 48) else None)"

fun digits_from :: "int \<Rightarrow> string \<Rightarrow> int option" where
  "digits_from acc [] = Some acc"
| "digits_from acc (c # cs) =
     (case digit_val c of None \<Rightarrow> None | Some d \<Rightarrow> digits_from (acc * 10 + d) cs)"

definition digits :: "string \<Rightarrow> int option" where
  "digits s = (if s = [] then None else digits_from 0 s)"

definition parse_isoformat_date :: "string \<Rightarrow> int option" where
  "parse_isoformat_date s =
     (if length s = 10 \<and> s ! 4 = CHR ''-'' \<and> s ! 7 = CHR ''-''
      then
        (case (digits (take 4 s), digits (take 2 (drop 5 s)), digits (drop 8 s)) of
           (Some y, Some m, Some d) \<Rightarrow>
             if 1 \<le> y \<and> 1 \<le> m \<and> m \<le> 12 \<and> 1 \<le> d \<and> d \<le> days_in_month y m
             then Some ((ymd2ord y m d - 1) * us_per_day) else None
         | _ \<Rightarrow> None)
      else None)"

definition parse_fraction :: "string \<Rightarrow> int option" where
  "parse_fraction s =
     (if s = [] then Some 0
      else if hd s = CHR ''.'' \<and> length s = 4 then map_option (\<lambda>n. n * 1000) (digits (tl s))
      else if hd s = CHR ''.'' \<and> length s = 7 then digits (tl s)
      else None)"

definition parse_isoformat_time :: "string \<Rightarrow> int option" where
  "parse_isoformat_time s =
     (if 8 \<le> length s \<and> s ! 2 = CHR '':'' \<and> s ! 5 = CHR '':''
      then
        (case (digits (take 2 s), digits (take 2 (drop 3 s)), digits (take 2 (drop 6 s)),
               parse_fraction (drop 8 s)) of
           (Some hh, Some mm, Some ss, Some us) \<Rightarrow>
             if hh \<le> 23 \<and> mm \<le> 59 \<and> ss \<le> 59
             then Some (hh * us_per_hour + mm * 60 * us_per_second + ss * us_per_second + us)
             else None
         | _ \<Rightarrow> None)
      else None)"

definition parse_isoformat_offset :: "string \<Rightarrow> int option" where
  "parse_isoformat_offset s =
     (if length s = 6 \<and> s ! 3 = CHR '':''
      then
        (case (digits (take 2 (tl s)), digits (drop 4 s)) of
           (Some hh, Some mm) \<Rightarrow>
             if hh * 60 + mm < 1440
             then Some ((if hd s = CHR ''-'' then - 1 else 1) * (hh * 60 + mm) * 60 * us_per_second)
             else None
         | _ \<Rightarrow> None)
      else None)"

definition is_sign :: "char \<Rightarrow> bool" where
  "is_sign c = (c = CHR ''+'' \<or> c = CHR ''-'')"

definition fromisoformat :: iso_parser where
  "fromisoformat s =
     (case parse_isoformat_date (take 10 s) of
        None \<Rightarrow> None
      | Some day \<Rightarrow>
          if length s = 10 then Some (Naive day)
          else
            (case parse_isoformat_time (takeWhile (\<lambda>c. \<not> is_sign c) (drop 11 s)) of
               None \<Rightarrow> None
             | Some t \<Rightarrow>
                 if dropWhile (\<lambda>c. \<not> is_sign c) (drop 11 s) = [] then Some (Naive (day + t))
                 else
                   (case parse_isoformat_offset (dropWhile (\<lambda>c. \<not> is_sign c) (drop 11 s)) of
                      None \<Rightarrow> None
                    | Some off \<Rightarrow> Some (Aware (day + t) off))))"

section \<open>\<open>convert_to_raw_timestamp\<close>\<close>

text \<open>
  Lines 10 to 31. The \<open>except\<close> clause catches \<open>ValueError\<close> and \<open>AttributeError\<close>, so a
  failed parse returns the input; an \<open>OverflowError\<close> of the two additions is not caught.
\<close>

definition convert_to_raw_timestamp :: "iso_parser \<Rightarrow> string \<Rightarrow> py_error + string" where
  "convert_to_raw_timestamp parser iso_timestamp =
     (if iso_timestamp = [] then Inr []
      else
        (case parser (replace_Z iso_timestamp) of
           None \<Rightarrow> Inr iso_timestamp
         | Some dt \<Rightarrow>
             (case add_hours (replace_tzinfo_None dt) (- 8) of
                Inl e \<Rightarrow> Inl e
              | Inr utc_dt \<Rightarrow>
                  (case add_hours utc_dt 4 of
                     Inl e \<Rightarrow> Inl e
                   | Inr adjusted_dt \<Rightarrow> Inr (strftime adjusted_dt)))))"

section \<open>Vocabulary of the statements\<close>

text \<open>
  Two \<open>datetime\<close> values can be ordered when both are naive or both are aware; \<open>instant\<close> is
  the integer by which values of one kind are ordered. \<open>uniform k xs\<close> says that the keys of
  \<open>xs\<close> are all naive or all aware.
\<close>

fun is_naive :: "datetime \<Rightarrow> bool" where
  "is_naive (Naive w) = True"
| "is_naive (Aware w off) = False"

fun instant :: "datetime \<Rightarrow> int" where
  "instant (Naive w) = w"
| "instant (Aware w off) = w - off"

definition uniform :: "('a \<Rightarrow> datetime) \<Rightarrow> 'a list \<Rightarrow> bool" where
  "uniform k xs = (list_all (\<lambda>x. is_naive (k x)) xs \<or> list_all (\<lambda>x. \<not> is_naive (k x)) xs)"

text \<open>
  The visits of one station in a list of records, in the order of the list, and the
  dictionary that groups a list of records by station.
\<close>

definition visits_of :: "history_record list \<Rightarrow> string \<Rightarrow> station_time list" where
  "visits_of rs name =
     map (\<lambda>r. \<lparr>start = history_station_start_time r, end_time = history_station_end_time r\<rparr>)
       (filter (\<lambda>r. workstation_name r = Some name) rs)"

definition grouped :: "history_record list \<Rightarrow> stations" where
  "grouped rs name = (if visits_of rs name = [] then None else Some (visits_of rs name))"

text \<open>
  The first visit of a station, in the order of its list, whose \<open>start\<close> string is
  strictly greater than the string \<open>e\<close>.
\<close>

definition first_visit_after :: "stations \<Rightarrow> string \<Rightarrow> string \<Rightarrow> station_time option" where
  "first_visit_after st name e =
     (case st name of
        None \<Rightarrow> None
      | Some ts \<Rightarrow> find (\<lambda>t. case start t of None \<Rightarrow> False | Some s \<Rightarrow> e < s) ts)"

text \<open>
  The cycle boundary in the words of the specification: the RECEIVE record that is last
  after sorting the RECEIVE records by parsed start time, ascending and stable. The working
  set: the records whose parsed start time is at or after the boundary's, or every record
  when there is no RECEIVE record.
\<close>

definition cycle_boundary :: "iso_parser \<Rightarrow> history_record list \<Rightarrow> history_record" where
  "cycle_boundary parser wd =
     last (sort_key (\<lambda>r. instant (start_key parser r)) (receive_records wd))"

definition working_set :: "iso_parser \<Rightarrow> history_record list \<Rightarrow> history_record list" where
  "working_set parser wd =
     (if receive_records wd = [] then wd
      else filter (\<lambda>r. instant (start_key parser (cycle_boundary parser wd))
                         \<le> instant (start_key parser r)) wd)"

section \<open>Example inputs\<close>

definition workstation_record :: "string \<Rightarrow> string option \<Rightarrow> string option \<Rightarrow> history_record" where
  "workstation_record name s e =
     \<lparr>source = Some ''workstation'', workstation_name = Some name,
      history_station_start_time = s, history_station_end_time = e\<rparr>"

text \<open>One cycle: RECEIVE, VI1, UPGRADE, BBD, FLA, each after the other.\<close>

definition chain_history :: "history_record list" where
  "chain_history =
     [workstation_record ''RECEIVE'' (Some ''2024-01-01T08:00:00'') None,
      workstation_record ''VI1'' (Some ''2024-01-01T09:00:00'') (Some ''2024-01-01T10:00:00''),
      workstation_record ''UPGRADE'' (Some ''2024-01-01T11:00:00'') (Some ''2024-01-01T12:00:00''),
      workstation_record ''BBD'' (Some ''2024-01-01T13:00:00'') (Some ''2024-01-01T14:00:00''),
      workstation_record ''FLA'' (Some ''2024-01-01T15:00:00'') None]"

text \<open>An UPGRADE visit after VI1 that is still open: its \<open>end\<close> is missing.\<close>

definition open_upgrade_history :: "history_record list" where
  "open_upgrade_history =
     [workstation_record ''VI1'' (Some ''2024-01-01T09:00:00'') (Some ''2024-01-01T10:00:00''),
      workstation_record ''UPGRADE'' (Some ''2024-01-01T11:00:00'') None]"

text \<open>
  After VI1, a Disassembly and an UPGRADE visit with the same \<open>start\<close>; an earlier UPGRADE
  visit starts before the end of VI1.
\<close>

definition tie_history :: "history_record list" where
  "tie_history =
     [workstation_record ''VI1'' (Some ''2024-01-01T09:00:00'') (Some ''2024-01-01T10:00:00''),
      workstation_record ''UPGRADE'' (Some ''2024-01-01T09:30:00'') (Some ''2024-01-01T09:45:00''),
      workstation_record ''UPGRADE'' (Some ''2024-01-01T11:00:00'') (Some ''2024-01-01T12:00:00''),
      workstation_record ''Disassembly'' (Some ''2024-01-01T11:00:00'') (Some ''2024-01-01T11:30:00'')]"


text \<open>Two cycles: a VI1 visit between an earlier and a later RECEIVE.\<close>

definition two_cycle_history :: "history_record list" where
  "two_cycle_history =
     [workstation_record ''RECEIVE'' (Some ''2024-01-01T08:00:00'') (Some ''2024-01-01T08:30:00''),
      workstation_record ''VI1'' (Some ''2024-01-01T09:00:00'') (Some ''2024-01-01T10:00:00''),
      workstation_record ''RECEIVE'' (Some ''2024-01-02T08:00:00'') (Some ''2024-01-02T08:30:00''),
      workstation_record ''PACKING'' (Some ''2024-01-02T09:00:00'') (Some ''2024-01-02T10:00:00'')]"

text \<open>A BBD record without a start, after a RECEIVE record with one.\<close>

definition no_start_history :: "history_record list" where
  "no_start_history =
     [workstation_record ''RECEIVE'' (Some ''2024-01-01T08:00:00'') (Some ''2024-01-01T08:30:00''),
      workstation_record ''BBD'' None (Some ''2024-01-01T12:00:00'')]"

text \<open>A RECEIVE record with a \<open>Z\<close> timestamp, and a record without a start.\<close>

definition aware_receive_history :: "history_record list" where
  "aware_receive_history =
     [workstation_record ''RECEIVE'' (Some ''2024-01-01T08:00:00Z'') (Some ''2024-01-01T08:30:00Z''),
      workstation_record ''VI1'' None None]"

section \<open>Ordering and sorting of \<open>datetime\<close> keys\<close>

lemma dt_lt_same: "is_naive a = is_naive b \<Longrightarrow> dt_lt a b = Inr (instant a < instant b)"
  by (cases a; cases b) auto

lemma dt_lt_mixed: "is_naive a \<noteq> is_naive b \<Longrightarrow> dt_lt a b = Inl TypeError"
  by (cases a; cases b) auto

lemma dt_ge_same: "is_naive a = is_naive b \<Longrightarrow> dt_ge a b = Inr (instant b \<le> instant a)"
  by (cases a; cases b) auto

lemma dt_ge_mixed: "is_naive a \<noteq> is_naive b \<Longrightarrow> dt_ge a b = Inl TypeError"
  by (cases a; cases b) auto

lemma uniform_Cons:
  "uniform k (x # xs) \<longleftrightarrow> uniform k xs \<and> (\<forall>y\<in>set xs. is_naive (k y) = is_naive (k x))"
  by (auto simp: uniform_def list_all_iff)

lemma uniform_same: "uniform k xs \<Longrightarrow> x \<in> set xs \<Longrightarrow> y \<in> set xs \<Longrightarrow> is_naive (k x) = is_naive (k y)"
  by (auto simp: uniform_def list_all_iff)

lemma uniform_set: "set xs = set ys \<Longrightarrow> uniform k xs = uniform k ys"
  by (auto simp: uniform_def list_all_iff)

lemma uniform_subset: "uniform k ys \<Longrightarrow> set xs \<subseteq> set ys \<Longrightarrow> uniform k xs"
  by (auto simp: uniform_def list_all_iff)

lemma insort_dt_same:
  "\<forall>y\<in>set ys. is_naive (k y) = is_naive (k x) \<Longrightarrow>
   insort_dt k x ys = Inr (insort_key (\<lambda>x. instant (k x)) x ys)"
  by (induction ys) (auto simp: dt_lt_same)

lemma insort_dt_mixed:
  "ys \<noteq> [] \<Longrightarrow> \<forall>y\<in>set ys. is_naive (k y) \<noteq> is_naive (k x) \<Longrightarrow> insort_dt k x ys = Inl TypeError"
  by (cases ys) (auto simp: dt_lt_mixed)

lemma py_sorted_uniform:
  "uniform k xs \<Longrightarrow> py_sorted k xs = Inr (sort_key (\<lambda>x. instant (k x)) xs)"
proof (induction xs)
  case Nil
  then show ?case by simp
next
  case (Cons x xs)
  then have u: "uniform k xs" and s: "\<forall>y\<in>set xs. is_naive (k y) = is_naive (k x)"
    by (simp_all add: uniform_Cons)
  from s have "\<forall>y\<in>set (sort_key (\<lambda>x. instant (k x)) xs). is_naive (k y) = is_naive (k x)"
    by simp
  then show ?case using Cons.IH [OF u] by (simp add: insort_dt_same)
qed

lemma py_sorted_mixed:
  "\<not> uniform k xs \<Longrightarrow> py_sorted k xs = Inl TypeError"
proof (induction xs)
  case Nil
  then show ?case by (simp add: uniform_def)
next
  case (Cons x xs)
  show ?case
  proof (cases "uniform k xs")
    case False
    then show ?thesis using Cons.IH by simp
  next
    case True
    with Cons.prems obtain y where y: "y \<in> set xs" "is_naive (k y) \<noteq> is_naive (k x)"
      by (auto simp: uniform_Cons)
    have all: "\<forall>z\<in>set xs. is_naive (k z) \<noteq> is_naive (k x)"
      using uniform_same [OF True _ y(1)] y(2) by blast
    have ne: "sort_key (\<lambda>x. instant (k x)) xs \<noteq> []" using y(1) by (cases xs) auto
    from all have "\<forall>z\<in>set (sort_key (\<lambda>x. instant (k x)) xs). is_naive (k z) \<noteq> is_naive (k x)"
      by simp
    then show ?thesis
      using py_sorted_uniform [OF True] insort_dt_mixed [OF ne] by simp
  qed
qed

lemma py_sorted_eq:
  "py_sorted k xs = (if uniform k xs then Inr (sort_key (\<lambda>x. instant (k x)) xs) else Inl TypeError)"
  by (simp add: py_sorted_uniform py_sorted_mixed)

lemma py_last_eq: "py_last xs = (if xs = [] then Inl IndexError else Inr (last xs))"
  by (cases xs rule: rev_cases) (simp_all add: py_last_def)

lemma from_cycle_same:
  "\<forall>r\<in>set rs. is_naive (start_key p r) = is_naive t \<Longrightarrow>
   from_cycle p t rs = Inr (filter (\<lambda>r. instant t \<le> instant (start_key p r)) rs)"
  by (induction rs) (auto simp: dt_ge_same)

lemma from_cycle_mixed:
  "\<exists>r\<in>set rs. is_naive (start_key p r) \<noteq> is_naive t \<Longrightarrow> from_cycle p t rs = Inl TypeError"
proof (induction rs)
  case Nil
  then show ?case by simp
next
  case (Cons r rs)
  show ?case
  proof (cases "is_naive (start_key p r) = is_naive t")
    case True
    with Cons show ?thesis by (auto simp: dt_ge_same)
  next
    case False
    then show ?thesis by (simp add: dt_ge_mixed)
  qed
qed

text \<open>The last element of a stable sort has the greatest key, and is the last such element of the list.\<close>

lemma sorted_le_last: "sorted ys \<Longrightarrow> y \<in> set ys \<Longrightarrow> y \<le> last ys"
  by (induction ys rule: rev_induct) (auto simp: sorted_append)

lemma last_sort_key_max:
  assumes "xs \<noteq> []"
  shows "last (sort_key f xs) \<in> set xs" and "\<forall>x\<in>set xs. f x \<le> f (last (sort_key f xs))"
proof -
  let ?s = "sort_key f xs"
  have ne: "?s \<noteq> []" using assms by (cases xs) auto
  then have "last ?s \<in> set ?s" by (rule last_in_set)
  then show "last ?s \<in> set xs" by simp
  have srt: "sorted (map f ?s)" by (rule sorted_sort_key)
  show "\<forall>x\<in>set xs. f x \<le> f (last ?s)"
  proof
    fix x assume "x \<in> set xs"
    then have "f x \<in> set (map f ?s)" by simp
    from sorted_le_last [OF srt this] show "f x \<le> f (last ?s)"
      using ne by (simp add: last_map)
  qed
qed



section \<open>Grouping and scanning\<close>

lemma build_stations_gen:
  "list_all (\<lambda>r. workstation_name r \<noteq> None) rs \<Longrightarrow>
   build_stations rs st =
     Inr (\<lambda>n. if visits_of rs n = [] then st n
              else Some ((case st n of None \<Rightarrow> [] | Some ts \<Rightarrow> ts) @ visits_of rs n))"
proof (induction rs arbitrary: st)
  case Nil
  then show ?case by (simp add: visits_of_def)
next
  case (Cons r rs)
  then obtain station where st: "workstation_name r = Some station" by auto
  from Cons.prems have rest: "list_all (\<lambda>r. workstation_name r \<noteq> None) rs" by simp
  show ?case
    unfolding build_stations.simps st option.case Cons.IH [OF rest]
    by (rule arg_cong [where f = Inr], rule ext) (auto simp: visits_of_def st split: option.splits)
qed

lemma build_stations_grouped:
  "list_all (\<lambda>r. workstation_name r \<noteq> None) rs \<Longrightarrow> build_stations rs Map.empty = Inr (grouped rs)"
  by (simp add: build_stations_gen grouped_def fun_eq_iff)

lemma is_after_Some: "is_after s (Some e) \<longleftrightarrow> (\<exists>x. s = Some x \<and> e \<noteq> [] \<and> e < x)"
  by (cases s) (auto simp: is_after_def truthy_def)

lemma is_after_falsy: "\<not> truthy ref \<Longrightarrow> \<not> is_after s ref"
  by (simp add: is_after_def)

lemma is_after_start_falsy: "\<not> truthy s \<Longrightarrow> \<not> is_after s ref"
  by (simp add: is_after_def)

lemma first_after_find:
  "first_after ts ref =
     map_option (\<lambda>t. (the (start t), end_time t)) (find (\<lambda>t. is_after (start t) ref) ts)"
  by (induction ts) auto

lemma sort_candidates_Nil: "sort_candidates [] = []"
  by (simp add: sort_candidates_def)

lemma sort_candidates_single: "sort_candidates [c] = [c]"
  by (simp add: sort_candidates_def)

lemma sort_candidates_two:
  "sort_candidates [a, b] = (if fst (snd a) \<le> fst (snd b) then [a, b] else [b, a])"
  by (simp add: sort_candidates_def)

section \<open>The steps of the milestone walk\<close>

lemma sort_key_eq_Nil: "sort_key f xs = [] \<longleftrightarrow> xs = []"
  by (cases xs) auto

lemma candidate_find:
  "candidate st n ref =
     (case st n of None \<Rightarrow> []
      | Some ts \<Rightarrow> (case find (\<lambda>t. is_after (start t) ref) ts of
                    None \<Rightarrow> []
                  | Some t \<Rightarrow> [(n, the (start t), end_time t)]))"
  by (simp add: candidate_def first_after_find split: option.splits)

lemma candidate_length: "length (candidate st n ref) \<le> 1"
  by (simp add: candidate_find split: option.splits)

lemma find_first_eq:
  "find P xs = Some u \<Longrightarrow> Q u \<Longrightarrow> (\<And>x. Q x \<Longrightarrow> P x) \<Longrightarrow> find Q xs = Some u"
  by (induction xs) (auto split: if_splits)

lemma is_after_nonempty:
  "e \<noteq> [] \<Longrightarrow> is_after s (Some e) = (case s of None \<Rightarrow> False | Some x \<Rightarrow> e < x)"
  by (cases s) (auto simp: is_after_def truthy_def)

lemma candidate_first_visit_after:
  "e \<noteq> [] \<Longrightarrow>
   candidate st n (Some e) =
     (case first_visit_after st n e of None \<Rightarrow> [] | Some t \<Rightarrow> [(n, the (start t), end_time t)])"
  by (simp add: candidate_find first_visit_after_def is_after_nonempty split: option.splits)

lemma first_visit_after_start:
  "first_visit_after st n e = Some t \<Longrightarrow> \<exists>s. start t = Some s \<and> e < s"
  by (auto simp: first_visit_after_def find_Some_iff split: option.splits)

lemma fla_chiflash_step_frame:
  "serial_number (fla_chiflash_step st r) = serial_number r"
  "vi1_end (fla_chiflash_step st r) = vi1_end r"
  "vi1_next_station (fla_chiflash_step st r) = vi1_next_station r"
  "vi1_next_start (fla_chiflash_step st r) = vi1_next_start r"
  "upgrade_end (fla_chiflash_step st r) = upgrade_end r"
  "bbd_assy_station (fla_chiflash_step st r) = bbd_assy_station r"
  "bbd_assy_start (fla_chiflash_step st r) = bbd_assy_start r"
  "bbd_assy_end (fla_chiflash_step st r) = bbd_assy_end r"
  "packing_end (fla_chiflash_step st r) = packing_end r"
  "shipping_start (fla_chiflash_step st r) = shipping_start r"
  by (simp_all add: fla_chiflash_step_def split: list.splits)

lemma after_packing_frame:
  "serial_number (after_packing st pe r) = serial_number r"
  "vi1_end (after_packing st pe r) = vi1_end r"
  "vi1_next_station (after_packing st pe r) = vi1_next_station r"
  "vi1_next_start (after_packing st pe r) = vi1_next_start r"
  "upgrade_end (after_packing st pe r) = upgrade_end r"
  "bbd_assy_station (after_packing st pe r) = bbd_assy_station r"
  "bbd_assy_start (after_packing st pe r) = bbd_assy_start r"
  "bbd_assy_end (after_packing st pe r) = bbd_assy_end r"
  "fla_chiflash_station (after_packing st pe r) = fla_chiflash_station r"
  "fla_chiflash_start (after_packing st pe r) = fla_chiflash_start r"
  "packing_end (after_packing st pe r) = pe"
  by (simp_all add: after_packing_def split: option.splits prod.splits)

lemma packing_step_elim:
  assumes "packing_step p st r = Inr r'"
  obtains (none) "st ''PACKING'' = None" "r' = r"
  | (some) ts where "st ''PACKING'' = Some ts" "ts \<noteq> []" "uniform (end_key p) ts"
      "r' = after_packing st (end_time (last (sort_key (\<lambda>x. instant (end_key p x)) ts))) r"
  using assms
  by (auto simp: packing_step_def py_sorted_eq py_last_eq sort_key_eq_Nil
      split: option.splits sum.splits if_splits)

lemma packing_step_frame:
  assumes "packing_step p st r = Inr r'"
  shows "serial_number r' = serial_number r"
    "vi1_end r' = vi1_end r"
    "vi1_next_station r' = vi1_next_station r"
    "vi1_next_start r' = vi1_next_start r"
    "upgrade_end r' = upgrade_end r"
    "bbd_assy_station r' = bbd_assy_station r"
    "bbd_assy_start r' = bbd_assy_start r"
    "bbd_assy_end r' = bbd_assy_end r"
    "fla_chiflash_station r' = fla_chiflash_station r"
    "fla_chiflash_start r' = fla_chiflash_start r"
  using assms by (auto elim!: packing_step_elim simp: after_packing_frame)

lemma bbd_assy_step_frame:
  "serial_number (bbd_assy_step st e r) = serial_number r"
  "vi1_end (bbd_assy_step st e r) = vi1_end r"
  "vi1_next_station (bbd_assy_step st e r) = vi1_next_station r"
  "vi1_next_start (bbd_assy_step st e r) = vi1_next_start r"
  "upgrade_end (bbd_assy_step st e r) = upgrade_end r"
  "fla_chiflash_station (bbd_assy_step st e r) = fla_chiflash_station r"
  "fla_chiflash_start (bbd_assy_step st e r) = fla_chiflash_start r"
  "packing_end (bbd_assy_step st e r) = packing_end r"
  "shipping_start (bbd_assy_step st e r) = shipping_start r"
  by (simp_all add: bbd_assy_step_def split: list.splits)

lemma milestone_walk_Inr:
  assumes "milestone_walk p sn st = Inr res"
  obtains r1 where "vi1_step p st (empty_result sn) = Inr r1"
    and "packing_step p st (fla_chiflash_step st r1) = Inr res"
  using assms by (auto simp: milestone_walk_def split: sum.splits)

lemma milestone_walk_vi1_fields:
  assumes "milestone_walk p sn st = Inr res"
  obtains r1 where "vi1_step p st (empty_result sn) = Inr r1"
    and "vi1_end res = vi1_end r1"
    and "vi1_next_station res = vi1_next_station r1"
    and "vi1_next_start res = vi1_next_start r1"
    and "upgrade_end res = upgrade_end r1"
    and "bbd_assy_station res = bbd_assy_station r1"
    and "bbd_assy_start res = bbd_assy_start r1"
    and "bbd_assy_end res = bbd_assy_end r1"
proof -
  from assms obtain r1 where r1: "vi1_step p st (empty_result sn) = Inr r1"
    and pk: "packing_step p st (fla_chiflash_step st r1) = Inr res"
    by (rule milestone_walk_Inr)
  show thesis
    using that [OF r1] packing_step_frame [OF pk] by (simp add: fla_chiflash_step_frame)
qed

lemma next_station_find:
  "next_station st e =
     (case (candidate st ''Disassembly'' e, candidate st ''UPGRADE'' e) of
        ([], []) \<Rightarrow> None
      | ([d], []) \<Rightarrow> Some (fst d, fst (snd d))
      | ([], [u]) \<Rightarrow> Some (fst u, fst (snd u))
      | ([d], [u]) \<Rightarrow> if fst (snd d) \<le> fst (snd u) then Some (fst d, fst (snd d))
                      else Some (fst u, fst (snd u))
      | _ \<Rightarrow> None)"
  using candidate_length [of st "''Disassembly''" e] candidate_length [of st "''UPGRADE''" e]
  by (auto simp: next_station_def sort_candidates_def split: list.splits)

lemma vi1_step_elim:
  assumes "vi1_step p st r = Inr r'"
  obtains (none) "st ''VI1'' = None" "r' = r"
  | (some) ts where "st ''VI1'' = Some ts" "ts \<noteq> []" "uniform (end_key p) ts"
      "after_vi1 st (end_time (last (sort_key (\<lambda>x. instant (end_key p x)) ts))) r = Inr r'"
  using assms
  by (auto simp: vi1_step_def py_sorted_eq py_last_eq sort_key_eq_Nil
      split: option.splits sum.splits if_splits)

lemma next_station_UPGRADE:
  assumes "next_station st e = Some (''UPGRADE'', s)"
  obtains ts u where "st ''UPGRADE'' = Some ts"
    and "find (\<lambda>t. is_after (start t) e) ts = Some u"
    and "start u = Some s"
proof -
  from assms obtain x where c: "candidate st ''UPGRADE'' e = [(''UPGRADE'', s, x)]"
    by (auto simp: next_station_find candidate_find split: list.splits option.splits if_splits)
  then obtain ts u where ts: "st ''UPGRADE'' = Some ts"
    and u: "find (\<lambda>t. is_after (start t) e) ts = Some u" and s: "the (start u) = s"
    by (auto simp: candidate_find split: option.splits)
  from u have "is_after (start u) e" by (auto simp: find_Some_iff)
  then have "start u = Some s" using s by (cases "start u") (auto simp: is_after_def truthy_def)
  with ts u show thesis by (rule that)
qed

lemma find_matching_upgrade:
  assumes "find (\<lambda>t. is_after (start t) e) ts = Some u"
  shows "find (\<lambda>t. start t = start u) ts = Some u"
proof (rule find_first_eq [OF assms])
  show "start u = start u" by simp
next
  fix x assume "start x = start u"
  moreover from assms have "is_after (start u) e" by (auto simp: find_Some_iff)
  ultimately show "is_after (start x) e" by simp
qed

lemma upgrade_step_matching:
  assumes "st ''UPGRADE'' = Some ts" and "find (\<lambda>t. start t = Some s) ts = Some u"
  shows "upgrade_step st (Some s) r =
           Inr (bbd_assy_step st (end_time u) (r\<lparr>upgrade_end := end_time u\<rparr>))"
  using assms by (simp add: upgrade_step_def)

lemma next_station_UPGRADE_match:
  assumes "next_station st e = Some (''UPGRADE'', s)"
  obtains ts u where "st ''UPGRADE'' = Some ts"
    and "find (\<lambda>t. start t = Some s) ts = Some u"
    and "find (\<lambda>t. is_after (start t) e) ts = Some u"
    and "start u = Some s"
proof -
  from assms obtain ts u where ts: "st ''UPGRADE'' = Some ts"
    and u: "find (\<lambda>t. is_after (start t) e) ts = Some u" and s: "start u = Some s"
    by (rule next_station_UPGRADE)
  from find_matching_upgrade [OF u] s have "find (\<lambda>t. start t = Some s) ts = Some u"
    by simp
  with ts show thesis using u s by (rule that)
qed

lemma from_cycle_subset: "from_cycle p t rs = Inr ws \<Longrightarrow> set ws \<subseteq> set rs"
  by (induction rs arbitrary: ws) (auto split: sum.splits if_splits)

lemma current_cycle_subset: "current_cycle p wd = Inr ws \<Longrightarrow> set ws \<subseteq> set wd"
  by (auto simp: current_cycle_def split: if_splits sum.splits dest: from_cycle_subset)

lemma process_Inr:
  assumes "process_raw_timestamps p sn h = Inr res"
  shows "(filter is_workstation h = [] \<and> res = empty_result sn) \<or>
         (\<exists>ws. current_cycle p (filter is_workstation h) = Inr ws \<and>
               milestone_walk p sn (grouped ws) = Inr res)"
proof (cases "filter is_workstation h = []")
  case True
  with assms show ?thesis by (auto simp: process_raw_timestamps_def split: if_splits)
next
  case False
  with assms obtain ws where ws: "current_cycle p (filter is_workstation h) = Inr ws"
    and rest: "(case build_stations ws Map.empty of Inl e \<Rightarrow> Inl e
                | Inr st \<Rightarrow> milestone_walk p sn st) = Inr res"
    by (auto simp: process_raw_timestamps_def split: sum.splits if_splits)
  have "set ws \<subseteq> set (filter is_workstation h)" using ws by (rule current_cycle_subset)
  then have "list_all (\<lambda>r. workstation_name r \<noteq> None) ws"
    by (auto simp: list_all_iff is_workstation_def truthy_def split: option.splits)
  then have "build_stations ws Map.empty = Inr (grouped ws)" by (rule build_stations_grouped)
  with rest ws show ?thesis by simp
qed

lemma grouped_Some: "grouped ws n = Some ts \<Longrightarrow> ts = visits_of ws n"
  by (auto simp: grouped_def split: if_splits)

lemma upgrade_step_frame:
  assumes "upgrade_step st s r = Inr r'"
  shows "serial_number r' = serial_number r"
    "vi1_end r' = vi1_end r"
    "vi1_next_station r' = vi1_next_station r"
    "vi1_next_start r' = vi1_next_start r"
    "fla_chiflash_station r' = fla_chiflash_station r"
    "fla_chiflash_start r' = fla_chiflash_start r"
    "packing_end r' = packing_end r"
    "shipping_start r' = shipping_start r"
  using assms
  by (auto simp: upgrade_step_def bbd_assy_step_frame split: option.splits)

lemma after_vi1_frame:
  assumes "after_vi1 st e r = Inr r'"
  shows "serial_number r' = serial_number r"
    "fla_chiflash_station r' = fla_chiflash_station r"
    "fla_chiflash_start r' = fla_chiflash_start r"
    "packing_end r' = packing_end r"
    "shipping_start r' = shipping_start r"
  using assms
  by (auto simp: after_vi1_def split: option.splits prod.splits if_splits
      dest: upgrade_step_frame)

lemma after_vi1_fields:
  assumes "after_vi1 st e r = Inr r'"
  shows "vi1_end r' = e"
    "vi1_next_station r' = map_option fst (next_station st e)"
    "vi1_next_start r' = map_option snd (next_station st e)"
  using assms
  by (auto simp: after_vi1_def split: option.splits prod.splits if_splits
      dest: upgrade_step_frame)

lemma vi1_step_frame:
  assumes "vi1_step p st r = Inr r'"
  shows "serial_number r' = serial_number r"
    "fla_chiflash_station r' = fla_chiflash_station r"
    "fla_chiflash_start r' = fla_chiflash_start r"
    "packing_end r' = packing_end r"
    "shipping_start r' = shipping_start r"
  using assms by (auto elim!: vi1_step_elim dest: after_vi1_frame)

lemma after_vi1_upgrade_fields:
  assumes "after_vi1 st e (empty_result sn) = Inr r'"
  shows "(vi1_next_station r' = Some ''UPGRADE'' \<longrightarrow>
            (\<exists>ts u. st ''UPGRADE'' = Some ts \<and>
               find (\<lambda>t. start t = vi1_next_start r') ts = Some u \<and>
               upgrade_end r' = end_time u)) \<and>
         (vi1_next_station r' \<noteq> Some ''UPGRADE'' \<longrightarrow>
            upgrade_end r' = None \<and> bbd_assy_station r' = None \<and>
            bbd_assy_start r' = None \<and> bbd_assy_end r' = None)"
proof (cases "next_station st e")
  case None
  with assms show ?thesis by (auto simp: after_vi1_def empty_result_def)
next
  case (Some ns)
  obtain n s where ns: "ns = (n, s)" by (cases ns)
  show ?thesis
  proof (cases "n = ''UPGRADE''")
    case False
    with assms Some ns show ?thesis by (auto simp: after_vi1_def empty_result_def)
  next
    case True
    from Some ns True have nx: "next_station st e = Some (''UPGRADE'', s)" by simp
    then obtain ts u where ts: "st ''UPGRADE'' = Some ts"
      and m: "find (\<lambda>t. start t = Some s) ts = Some u"
      by (rule next_station_UPGRADE_match)
    from assms nx upgrade_step_matching [of st, OF ts m]
    have r': "r' = bbd_assy_step st (end_time u)
                ((empty_result sn)\<lparr>vi1_end := e, vi1_next_station := Some ''UPGRADE'',
                   vi1_next_start := Some s, upgrade_end := end_time u\<rparr>)"
      by (simp add: after_vi1_def)
    show ?thesis using ts m by (simp add: r' bbd_assy_step_frame)
  qed
qed

lemma vi1_step_upgrade_fields:
  assumes "vi1_step p st (empty_result sn) = Inr r'"
  shows "(vi1_next_station r' = Some ''UPGRADE'' \<longrightarrow>
            (\<exists>ts u. st ''UPGRADE'' = Some ts \<and>
               find (\<lambda>t. start t = vi1_next_start r') ts = Some u \<and>
               upgrade_end r' = end_time u)) \<and>
         (vi1_next_station r' \<noteq> Some ''UPGRADE'' \<longrightarrow>
            upgrade_end r' = None \<and> bbd_assy_station r' = None \<and>
            bbd_assy_start r' = None \<and> bbd_assy_end r' = None)"
  using assms
proof (cases rule: vi1_step_elim)
  case none
  then show ?thesis by (simp add: empty_result_def)
next
  case (some ts)
  from some(4) show ?thesis by (rule after_vi1_upgrade_fields)
qed

lemma milestone_walk_upgrade_fields:
  assumes "milestone_walk p sn st = Inr res"
  shows "(vi1_next_station res = Some ''UPGRADE'' \<longrightarrow>
            (\<exists>ts u. st ''UPGRADE'' = Some ts \<and>
               find (\<lambda>t. start t = vi1_next_start res) ts = Some u \<and>
               upgrade_end res = end_time u)) \<and>
         (vi1_next_station res \<noteq> Some ''UPGRADE'' \<longrightarrow>
            upgrade_end res = None \<and> bbd_assy_station res = None \<and>
            bbd_assy_start res = None \<and> bbd_assy_end res = None)"
proof -
  from assms obtain r1 where r1: "vi1_step p st (empty_result sn) = Inr r1"
    and eqs: "vi1_next_station res = vi1_next_station r1"
      "vi1_next_start res = vi1_next_start r1"
      "upgrade_end res = upgrade_end r1"
      "bbd_assy_station res = bbd_assy_station r1"
      "bbd_assy_start res = bbd_assy_start r1"
      "bbd_assy_end res = bbd_assy_end r1"
    by (rule milestone_walk_vi1_fields)
  from vi1_step_upgrade_fields [OF r1] show ?thesis by (simp add: eqs)
qed

lemma next_station_first_visit_after:
  assumes "e \<noteq> []"
  shows "next_station st (Some e) =
     (case (first_visit_after st ''Disassembly'' e, first_visit_after st ''UPGRADE'' e) of
        (None, None) \<Rightarrow> None
      | (Some d, None) \<Rightarrow> Some (''Disassembly'', the (start d))
      | (None, Some u) \<Rightarrow> Some (''UPGRADE'', the (start u))
      | (Some d, Some u) \<Rightarrow>
          if the (start u) < the (start d) then Some (''UPGRADE'', the (start u))
          else Some (''Disassembly'', the (start d)))"
  by (auto simp: next_station_find candidate_first_visit_after [OF assms] split: option.splits)

lemma first_after_first_visit_after:
  "e \<noteq> [] \<Longrightarrow> st n = Some ss \<Longrightarrow>
   first_after ss (Some e) =
     map_option (\<lambda>t. (the (start t), end_time t)) (first_visit_after st n e)"
  by (simp add: first_after_find first_visit_after_def is_after_nonempty)

lemma first_after_falsy: "\<not> truthy ref \<Longrightarrow> first_after ts ref = None"
  by (induction ts) (auto simp: is_after_def)

lemma after_packing_shipping:
  assumes init: "shipping_start r = None"
  shows "shipping_start (after_packing st pe r) =
     (case pe of
        None \<Rightarrow> None
      | Some e \<Rightarrow>
          if e = [] then None
          else (case first_visit_after st ''SHIPPING'' e of None \<Rightarrow> None | Some t \<Rightarrow> start t))"
proof (cases "truthy pe")
  case False
  then have "shipping_start (after_packing st pe r) = None"
    using init by (simp add: after_packing_def first_after_falsy split: option.splits)
  with False show ?thesis by (simp add: truthy_def split: option.splits)
next
  case True
  then obtain e where e: "pe = Some e" "e \<noteq> []" by (auto simp: truthy_def split: option.splits)
  show ?thesis
  proof (cases "st ''SHIPPING''")
    case None
    then show ?thesis using init e by (simp add: after_packing_def first_visit_after_def)
  next
    case (Some ss)
    show ?thesis
    proof (cases "first_visit_after st ''SHIPPING'' e")
      case None
      then show ?thesis
        using init e Some
        by (simp add: after_packing_def first_after_first_visit_after [of e st "''SHIPPING''" ss, OF e(2) Some])
    next
      case Some2: (Some t)
      from first_visit_after_start [OF Some2] obtain s where "start t = Some s" by blast
      then show ?thesis
        using e Some Some2
        by (simp add: after_packing_def first_after_first_visit_after [of e st "''SHIPPING''" ss, OF e(2) Some])
    qed
  qed
qed

lemma milestone_walk_packing:
  assumes "milestone_walk p sn st = Inr res"
  obtains (none) "st ''PACKING'' = None" "packing_end res = None" "shipping_start res = None"
  | (some) ts where "st ''PACKING'' = Some ts" "ts \<noteq> []" "uniform (end_key p) ts"
      "packing_end res = end_time (last (sort_key (\<lambda>x. instant (end_key p x)) ts))"
      "shipping_start res =
         (case packing_end res of
            None \<Rightarrow> None
          | Some e \<Rightarrow>
              if e = [] then None
              else (case first_visit_after st ''SHIPPING'' e of None \<Rightarrow> None | Some t \<Rightarrow> start t))"
proof -
  from assms obtain r1 where r1: "vi1_step p st (empty_result sn) = Inr r1"
    and pk: "packing_step p st (fla_chiflash_step st r1) = Inr res"
    by (rule milestone_walk_Inr)
  from vi1_step_frame [OF r1]
  have init: "packing_end (fla_chiflash_step st r1) = None"
    "shipping_start (fla_chiflash_step st r1) = None"
    by (simp_all add: fla_chiflash_step_frame empty_result_def)
  from pk show thesis
  proof (cases rule: packing_step_elim)
    case none
    with init show ?thesis by (intro that(1)) simp_all
  next
    case (some ts)
    show ?thesis
      using some(1-3)
      by (rule that(2)) (simp_all add: some(4) after_packing_frame after_packing_shipping init)
  qed
qed

section \<open>The current cycle\<close>

lemma not_uniform_witness:
  assumes "\<not> uniform k xs" and "b \<in> set xs"
  shows "\<exists>r\<in>set xs. is_naive (k r) \<noteq> is_naive (k b)"
proof (rule ccontr)
  assume "\<not> (\<exists>r\<in>set xs. is_naive (k r) \<noteq> is_naive (k b))"
  then have all: "\<forall>r\<in>set xs. is_naive (k r) = is_naive (k b)" by simp
  have "uniform k xs"
  proof (cases "is_naive (k b)")
    case True
    with all show ?thesis by (simp add: uniform_def list_all_iff)
  next
    case False
    with all show ?thesis by (simp add: uniform_def list_all_iff)
  qed
  with assms(1) show False by simp
qed

lemma receive_records_subset: "set (receive_records wd) \<subseteq> set wd"
  by (auto simp: receive_records_def)

lemma cycle_boundary_in:
  assumes "receive_records wd \<noteq> []"
  shows "cycle_boundary p wd \<in> set (receive_records wd)"
  unfolding cycle_boundary_def by (rule last_sort_key_max(1) [OF assms])

lemma cycle_boundary_max:
  assumes "receive_records wd \<noteq> []"
  shows "\<forall>r\<in>set (receive_records wd).
           instant (start_key p r) \<le> instant (start_key p (cycle_boundary p wd))"
  unfolding cycle_boundary_def by (rule last_sort_key_max(2) [OF assms])

lemma current_cycle_eq:
  "current_cycle p wd =
     (if receive_records wd = [] \<or> uniform (start_key p) wd then Inr (working_set p wd)
      else Inl TypeError)"
proof (cases "receive_records wd = []")
  case True
  then show ?thesis by (simp add: current_cycle_def working_set_def)
next
  case ne: False
  let ?b = "cycle_boundary p wd"
  have b_in: "?b \<in> set wd" using cycle_boundary_in [OF ne] receive_records_subset by blast
  show ?thesis
  proof (cases "uniform (start_key p) wd")
    case True
    then have ur: "uniform (start_key p) (receive_records wd)"
      by (rule uniform_subset) (rule receive_records_subset)
    have same: "\<forall>r\<in>set wd. is_naive (start_key p r) = is_naive (start_key p ?b)"
      using uniform_same [OF True _ b_in] by blast
    have "current_cycle p wd = from_cycle p (start_key p ?b) wd"
      using ne
      by (simp add: current_cycle_def py_sorted_uniform [OF ur] py_last_eq sort_key_eq_Nil
          cycle_boundary_def)
    also have "\<dots> = Inr (filter (\<lambda>r. instant (start_key p ?b) \<le> instant (start_key p r)) wd)"
      by (rule from_cycle_same [OF same])
    finally show ?thesis using ne True by (simp add: working_set_def)
  next
    case False
    show ?thesis
    proof (cases "uniform (start_key p) (receive_records wd)")
      case ur: True
      from not_uniform_witness [OF False b_in]
      have mixed: "\<exists>r\<in>set wd. is_naive (start_key p r) \<noteq> is_naive (start_key p ?b)" .
      have "current_cycle p wd = from_cycle p (start_key p ?b) wd"
        using ne
        by (simp add: current_cycle_def py_sorted_uniform [OF ur] py_last_eq sort_key_eq_Nil
            cycle_boundary_def)
      also have "\<dots> = Inl TypeError" by (rule from_cycle_mixed [OF mixed])
      finally show ?thesis using ne False by simp
    next
      case nur: False
      then show ?thesis
        using ne False by (simp add: current_cycle_def py_sorted_mixed)
    qed
  qed
qed

lemma current_cycle_Inr: "current_cycle p wd = Inr ws \<Longrightarrow> ws = working_set p wd"
  by (simp add: current_cycle_eq split: if_splits)

lemma before_receive_not_in_working_set:
  assumes "r2 \<in> set (receive_records wd)"
    and "instant (start_key p v) < instant (start_key p r2)"
  shows "v \<notin> set (working_set p wd)"
proof -
  from assms(1) have ne: "receive_records wd \<noteq> []" by auto
  from cycle_boundary_max [OF ne] assms(1)
  have "instant (start_key p r2) \<le> instant (start_key p (cycle_boundary p wd))" by blast
  with assms(2) have "\<not> instant (start_key p (cycle_boundary p wd)) \<le> instant (start_key p v)"
    by simp
  then show ?thesis using ne by (simp add: working_set_def)
qed

lemma visits_of_in:
  "t \<in> set (visits_of ws n) \<Longrightarrow>
   \<exists>w\<in>set ws. workstation_name w = Some n \<and> history_station_start_time w = start t \<and>
     history_station_end_time w = end_time t"
  by (auto simp: visits_of_def)

lemma milestone_walk_vi1_end:
  assumes "milestone_walk p sn (grouped ws) = Inr res"
  shows "(visits_of ws ''VI1'' = [] \<and> vi1_end res = None) \<or>
         (\<exists>w\<in>set ws. workstation_name w = Some ''VI1'' \<and> history_station_end_time w = vi1_end res)"
proof -
  from assms obtain r1 where r1: "vi1_step p (grouped ws) (empty_result sn) = Inr r1"
    and eq: "vi1_end res = vi1_end r1"
    by (rule milestone_walk_vi1_fields)
  from r1 show ?thesis
  proof (cases rule: vi1_step_elim)
    case none
    then show ?thesis using eq by (simp add: grouped_def empty_result_def split: if_splits)
  next
    case (some ts)
    let ?m = "last (sort_key (\<lambda>x. instant (end_key p x)) ts)"
    have "?m \<in> set ts" by (rule last_sort_key_max(1) [OF some(2)])
    moreover have "ts = visits_of ws ''VI1''" using some(1) by (rule grouped_Some)
    ultimately have "?m \<in> set (visits_of ws ''VI1'')" by simp
    from visits_of_in [OF this] after_vi1_fields(1) [OF some(4)] eq
    show ?thesis by auto
  qed
qed

lemma dt_ge_refl: "dt_ge d d = Inr True"
  by (cases d) simp_all

lemma less_nonempty: "(a::string) < b \<Longrightarrow> b \<noteq> []"
  by auto

lemma py_sorted_single: "py_sorted k [x] = Inr [x]"
  by simp

lemma py_last_single: "py_last [x] = Inr x"
  by (simp add: py_last_def)

section \<open>What a scan selects\<close>

lemma first_after_skip:
  "\<not> truthy (start t) \<Longrightarrow> first_after (pre @ t # post) ref = first_after (pre @ post) ref"
  by (induction pre) (simp_all add: is_after_def)

lemma grouped_member:
  assumes "r \<in> set ws" and "workstation_name r = Some n"
  shows "grouped ws n = Some (visits_of ws n)"
    and "\<lparr>start = history_station_start_time r, end_time = history_station_end_time r\<rparr>
           \<in> set (visits_of ws n)"
proof -
  show in_visits: "\<lparr>start = history_station_start_time r, end_time = history_station_end_time r\<rparr>
           \<in> set (visits_of ws n)"
    using assms by (auto simp: visits_of_def)
  then have "visits_of ws n \<noteq> []" by auto
  then show "grouped ws n = Some (visits_of ws n)" by (simp add: grouped_def)
qed

lemma current_cycle_names:
  assumes "current_cycle p (filter is_workstation h) = Inr ws"
  shows "list_all (\<lambda>r. workstation_name r \<noteq> None) ws"
proof -
  have "set ws \<subseteq> set (filter is_workstation h)" using assms by (rule current_cycle_subset)
  then show ?thesis
    by (auto simp: list_all_iff is_workstation_def truthy_def split: option.splits)
qed

lemma candidate_after:
  assumes "c \<in> set (candidate st n ref)"
  shows "\<exists>e. ref = Some e \<and> e \<noteq> [] \<and> e < fst (snd c)"
proof -
  from assms obtain ts where ts: "st n = Some ts"
    by (cases "st n") (simp_all add: candidate_find)
  with assms obtain t where t: "find (\<lambda>t. is_after (start t) ref) ts = Some t"
    by (cases "find (\<lambda>t. is_after (start t) ref) ts") (simp_all add: candidate_find)
  from assms ts t have c: "c = (n, the (start t), end_time t)"
    by (simp add: candidate_find)
  from t have "is_after (start t) ref" by (auto simp: find_Some_iff)
  then show ?thesis
    unfolding c by (cases ref; cases "start t") (auto simp: is_after_def truthy_def)
qed

lemma sort_candidates_head:
  "sort_candidates cs = c # rest \<Longrightarrow> c \<in> set cs"
proof -
  assume "sort_candidates cs = c # rest"
  then have "c \<in> set (sort_candidates cs)" by simp
  then show ?thesis by (simp add: sort_candidates_def)
qed

lemma next_station_after:
  assumes "next_station st E = Some (n, s)"
  shows "\<exists>e. E = Some e \<and> e \<noteq> [] \<and> e < s"
proof -
  from assms obtain c rest
    where srt: "sort_candidates (candidate st ''Disassembly'' E @ candidate st ''UPGRADE'' E) = c # rest"
      and s: "s = fst (snd c)"
    by (auto simp: next_station_def split: list.splits)
  from sort_candidates_head [OF srt]
  have "c \<in> set (candidate st ''Disassembly'' E) \<or> c \<in> set (candidate st ''UPGRADE'' E)"
    by simp
  then show ?thesis using candidate_after s by blast
qed

lemma bbd_assy_step_start:
  assumes "bbd_assy_start (bbd_assy_step st E r) = Some s" and "bbd_assy_start r = None"
  shows "\<exists>e. E = Some e \<and> e \<noteq> [] \<and> e < s"
proof -
  from assms obtain c rest
    where srt: "sort_candidates
             (candidate st ''BBD'' E @ candidate st ''ASSY1'' E @
              candidate st ''Assembley'' E) = c # rest"
      and s: "s = fst (snd c)"
    by (auto simp: bbd_assy_step_def split: list.splits)
  from sort_candidates_head [OF srt]
  have "c \<in> set (candidate st ''BBD'' E) \<or> c \<in> set (candidate st ''ASSY1'' E) \<or>
        c \<in> set (candidate st ''Assembley'' E)"
    by simp
  then show ?thesis using candidate_after s by blast
qed

lemma fla_chiflash_step_start:
  assumes "fla_chiflash_start (fla_chiflash_step st r) = Some s" and "fla_chiflash_start r = None"
  shows "\<exists>e. bbd_assy_end r = Some e \<and> e \<noteq> [] \<and> e < s"
proof -
  from assms obtain c rest
    where srt: "sort_candidates
                (candidate st ''FLA'' (bbd_assy_end r) @
                 candidate st ''CHIFLASH'' (bbd_assy_end r)) = c # rest"
      and s: "s = fst (snd c)"
    by (auto simp: fla_chiflash_step_def split: list.splits if_splits)
  from sort_candidates_head [OF srt]
  have "c \<in> set (candidate st ''FLA'' (bbd_assy_end r)) \<or>
        c \<in> set (candidate st ''CHIFLASH'' (bbd_assy_end r))"
    by simp
  then show ?thesis using candidate_after s by blast
qed

lemma after_vi1_starts:
  assumes "after_vi1 st E (empty_result sn) = Inr r'"
  shows "\<forall>s. vi1_next_start r' = Some s \<longrightarrow> (\<exists>e. vi1_end r' = Some e \<and> e \<noteq> [] \<and> e < s)"
    and "\<forall>s. bbd_assy_start r' = Some s \<longrightarrow> (\<exists>e. upgrade_end r' = Some e \<and> e \<noteq> [] \<and> e < s)"
proof -
  show "\<forall>s. vi1_next_start r' = Some s \<longrightarrow> (\<exists>e. vi1_end r' = Some e \<and> e \<noteq> [] \<and> e < s)"
  proof (intro allI impI)
    fix s assume "vi1_next_start r' = Some s"
    with after_vi1_fields [OF assms] obtain n where "next_station st E = Some (n, s)"
      by (cases "next_station st E") auto
    from next_station_after [OF this] after_vi1_fields(1) [OF assms]
    show "\<exists>e. vi1_end r' = Some e \<and> e \<noteq> [] \<and> e < s" by simp
  qed
  show "\<forall>s. bbd_assy_start r' = Some s \<longrightarrow> (\<exists>e. upgrade_end r' = Some e \<and> e \<noteq> [] \<and> e < s)"
  proof (cases "next_station st E")
    case None
    with assms show ?thesis by (auto simp: after_vi1_def empty_result_def)
  next
    case (Some ns)
    obtain n s0 where ns: "ns = (n, s0)" by (cases ns)
    show ?thesis
    proof (cases "n = ''UPGRADE''")
      case False
      with assms Some ns show ?thesis by (auto simp: after_vi1_def empty_result_def)
    next
      case True
      from Some ns True have nx: "next_station st E = Some (''UPGRADE'', s0)" by simp
      then obtain ts u where ts: "st ''UPGRADE'' = Some ts"
        and m: "find (\<lambda>t. start t = Some s0) ts = Some u"
        by (rule next_station_UPGRADE_match)
      from assms nx upgrade_step_matching [of st, OF ts m]
      have r': "r' = bbd_assy_step st (end_time u)
                ((empty_result sn)\<lparr>vi1_end := E, vi1_next_station := Some ''UPGRADE'',
                   vi1_next_start := Some s0, upgrade_end := end_time u\<rparr>)"
        by (simp add: after_vi1_def)
      show ?thesis
      proof (intro allI impI)
        fix s assume "bbd_assy_start r' = Some s"
        then have "\<exists>e. end_time u = Some e \<and> e \<noteq> [] \<and> e < s"
          unfolding r' by (rule bbd_assy_step_start) (simp add: empty_result_def)
        then show "\<exists>e. upgrade_end r' = Some e \<and> e \<noteq> [] \<and> e < s"
          by (simp add: r' bbd_assy_step_frame)
      qed
    qed
  qed
qed

lemma vi1_step_starts:
  assumes "vi1_step p st (empty_result sn) = Inr r'"
  shows "(\<forall>s. vi1_next_start r' = Some s \<longrightarrow> (\<exists>e. vi1_end r' = Some e \<and> e \<noteq> [] \<and> e < s)) \<and>
        (\<forall>s. bbd_assy_start r' = Some s \<longrightarrow> (\<exists>e. upgrade_end r' = Some e \<and> e \<noteq> [] \<and> e < s))"
  using assms
proof (cases rule: vi1_step_elim)
  case none
  then show ?thesis by (simp add: empty_result_def)
next
  case (some ts)
  show ?thesis
    by (rule conjI) (rule after_vi1_starts(1) [OF some(4)], rule after_vi1_starts(2) [OF some(4)])
qed

lemma milestone_walk_starts:
  assumes "milestone_walk p sn st = Inr res"
  shows "(\<forall>s. vi1_next_start res = Some s \<longrightarrow> (\<exists>e. vi1_end res = Some e \<and> e \<noteq> [] \<and> e < s)) \<and>
    (\<forall>s. bbd_assy_start res = Some s \<longrightarrow> (\<exists>e. upgrade_end res = Some e \<and> e \<noteq> [] \<and> e < s)) \<and>
    (\<forall>s. fla_chiflash_start res = Some s \<longrightarrow> (\<exists>e. bbd_assy_end res = Some e \<and> e \<noteq> [] \<and> e < s)) \<and>
    (\<forall>s. shipping_start res = Some s \<longrightarrow> (\<exists>e. packing_end res = Some e \<and> e \<noteq> [] \<and> e < s))"
proof -
  from assms obtain r1 where r1: "vi1_step p st (empty_result sn) = Inr r1"
    and pk: "packing_step p st (fla_chiflash_step st r1) = Inr res"
    by (rule milestone_walk_Inr)
  note fr = packing_step_frame [OF pk] fla_chiflash_step_frame
  have a: "\<forall>s. vi1_next_start res = Some s \<longrightarrow> (\<exists>e. vi1_end res = Some e \<and> e \<noteq> [] \<and> e < s)"
    using conjunct1 [OF vi1_step_starts [OF r1]] by (simp add: fr)
  have b: "\<forall>s. bbd_assy_start res = Some s \<longrightarrow> (\<exists>e. upgrade_end res = Some e \<and> e \<noteq> [] \<and> e < s)"
    using conjunct2 [OF vi1_step_starts [OF r1]] by (simp add: fr)
  have init: "fla_chiflash_start r1 = None"
    using vi1_step_frame [OF r1] by (simp add: empty_result_def)
  have c: "\<forall>s. fla_chiflash_start res = Some s \<longrightarrow>
             (\<exists>e. bbd_assy_end res = Some e \<and> e \<noteq> [] \<and> e < s)"
  proof (intro allI impI)
    fix s assume "fla_chiflash_start res = Some s"
    then have "fla_chiflash_start (fla_chiflash_step st r1) = Some s"
      by (simp add: packing_step_frame [OF pk])
    from fla_chiflash_step_start [OF this init]
    show "\<exists>e. bbd_assy_end res = Some e \<and> e \<noteq> [] \<and> e < s" by (simp add: fr)
  qed
  have d: "\<forall>s. shipping_start res = Some s \<longrightarrow>
             (\<exists>e. packing_end res = Some e \<and> e \<noteq> [] \<and> e < s)"
  proof (intro allI impI)
    fix s assume s: "shipping_start res = Some s"
    from assms show "\<exists>e. packing_end res = Some e \<and> e \<noteq> [] \<and> e < s"
    proof (cases rule: milestone_walk_packing)
      case none
      with s show ?thesis by simp
    next
      case (some ts)
      from s some(5) obtain pe where pe: "packing_end res = Some pe" "pe \<noteq> []"
        by (cases "packing_end res") (auto split: if_splits)
      with s some(5) obtain t where t: "first_visit_after st ''SHIPPING'' pe = Some t"
        "start t = Some s"
        by (cases "first_visit_after st ''SHIPPING'' pe") auto
      from first_visit_after_start [OF t(1)] t(2) have "pe < s" by simp
      with pe show ?thesis by simp
    qed
  qed
  from a b c d show ?thesis by (intro conjI)
qed

section \<open>When the function returns\<close>

lemma after_vi1_returns: "\<exists>r'. after_vi1 st e r = Inr r'"
proof (cases "next_station st e")
  case None
  then show ?thesis by (simp add: after_vi1_def)
next
  case (Some ns)
  obtain n s where ns: "ns = (n, s)" by (cases ns)
  show ?thesis
  proof (cases "n = ''UPGRADE''")
    case False
    with Some ns show ?thesis by (simp add: after_vi1_def)
  next
    case True
    from Some ns True have nx: "next_station st e = Some (''UPGRADE'', s)" by simp
    then obtain ts u where ts: "st ''UPGRADE'' = Some ts"
      and m: "find (\<lambda>t. start t = Some s) ts = Some u"
      by (rule next_station_UPGRADE_match)
    from nx upgrade_step_matching [of st, OF ts m] show ?thesis
      by (simp add: after_vi1_def)
  qed
qed

lemma uniform_Nil: "uniform k []"
  by (simp add: uniform_def)

lemma grouped_None: "grouped ws n = None \<longleftrightarrow> visits_of ws n = []"
  by (simp add: grouped_def)

lemma vi1_step_grouped:
  "(\<exists>r'. vi1_step p (grouped ws) r = Inr r') \<longleftrightarrow> uniform (end_key p) (visits_of ws ''VI1'')"
  "vi1_step p (grouped ws) r = Inl e \<Longrightarrow> e = TypeError"
proof -
  have both: "((\<exists>r'. vi1_step p (grouped ws) r = Inr r') \<longleftrightarrow>
                uniform (end_key p) (visits_of ws ''VI1'')) \<and>
              (vi1_step p (grouped ws) r = Inl e \<longrightarrow> e = TypeError)"
  proof (cases "visits_of ws ''VI1'' = []")
    case True
    then show ?thesis by (simp add: vi1_step_def grouped_def uniform_Nil)
  next
    case False
    then have g: "grouped ws ''VI1'' = Some (visits_of ws ''VI1'')" by (simp add: grouped_def)
    show ?thesis
    proof (cases "uniform (end_key p) (visits_of ws ''VI1'')")
      case True
      from after_vi1_returns obtain r' where
        "after_vi1 (grouped ws)
           (end_time (last (sort_key (\<lambda>x. instant (end_key p x)) (visits_of ws ''VI1'')))) r = Inr r'"
        by blast
      with True False show ?thesis
        by (simp add: vi1_step_def g py_sorted_eq py_last_eq sort_key_eq_Nil)
    next
      case nu: False
      then show ?thesis by (simp add: vi1_step_def g py_sorted_eq)
    qed
  qed
  from both show "(\<exists>r'. vi1_step p (grouped ws) r = Inr r') \<longleftrightarrow>
      uniform (end_key p) (visits_of ws ''VI1'')" by (rule conjunct1)
  from both show "vi1_step p (grouped ws) r = Inl e \<Longrightarrow> e = TypeError" by simp
qed

lemma packing_step_grouped:
  "(\<exists>r'. packing_step p (grouped ws) r = Inr r') \<longleftrightarrow>
     uniform (end_key p) (visits_of ws ''PACKING'')"
  "packing_step p (grouped ws) r = Inl e \<Longrightarrow> e = TypeError"
proof -
  have both: "((\<exists>r'. packing_step p (grouped ws) r = Inr r') \<longleftrightarrow>
                uniform (end_key p) (visits_of ws ''PACKING'')) \<and>
              (packing_step p (grouped ws) r = Inl e \<longrightarrow> e = TypeError)"
  proof (cases "visits_of ws ''PACKING'' = []")
    case True
    then show ?thesis by (simp add: packing_step_def grouped_def uniform_Nil)
  next
    case False
    then have g: "grouped ws ''PACKING'' = Some (visits_of ws ''PACKING'')"
      by (simp add: grouped_def)
    show ?thesis
      using False by (simp add: packing_step_def g py_sorted_eq py_last_eq sort_key_eq_Nil)
  qed
  from both show "(\<exists>r'. packing_step p (grouped ws) r = Inr r') \<longleftrightarrow>
      uniform (end_key p) (visits_of ws ''PACKING'')" by (rule conjunct1)
  from both show "packing_step p (grouped ws) r = Inl e \<Longrightarrow> e = TypeError" by simp
qed

lemma milestone_walk_grouped:
  "(\<exists>res. milestone_walk p sn (grouped ws) = Inr res) \<longleftrightarrow>
     uniform (end_key p) (visits_of ws ''VI1'') \<and> uniform (end_key p) (visits_of ws ''PACKING'')"
  "milestone_walk p sn (grouped ws) = Inl e \<Longrightarrow> e = TypeError"
proof -
  show "(\<exists>res. milestone_walk p sn (grouped ws) = Inr res) \<longleftrightarrow>
     uniform (end_key p) (visits_of ws ''VI1'') \<and> uniform (end_key p) (visits_of ws ''PACKING'')"
  proof (cases "vi1_step p (grouped ws) (empty_result sn)")
    case (Inl e)
    then have "\<not> (\<exists>r'. vi1_step p (grouped ws) (empty_result sn) = Inr r')" by simp
    then have "\<not> uniform (end_key p) (visits_of ws ''VI1'')"
      using vi1_step_grouped(1) [of p ws "empty_result sn"] by simp
    with Inl show ?thesis by (simp add: milestone_walk_def)
  next
    case (Inr r1)
    then have "\<exists>r'. vi1_step p (grouped ws) (empty_result sn) = Inr r'" by simp
    then have u: "uniform (end_key p) (visits_of ws ''VI1'')"
      using vi1_step_grouped(1) [of p ws "empty_result sn"] by simp
    show ?thesis
      using packing_step_grouped(1) [of p ws "fla_chiflash_step (grouped ws) r1"]
      by (simp add: milestone_walk_def Inr u)
  qed
  show "milestone_walk p sn (grouped ws) = Inl e \<Longrightarrow> e = TypeError"
    by (auto simp: milestone_walk_def split: sum.splits
        dest: vi1_step_grouped(2) packing_step_grouped(2))
qed

lemma process_raises_only_TypeError:
  assumes "process_raw_timestamps p sn h = Inl e"
  shows "e = TypeError"
proof -
  let ?wd = "filter is_workstation h"
  from assms have ne: "?wd \<noteq> []"
    by (auto simp: process_raw_timestamps_def split: if_splits)
  show ?thesis
  proof (cases "current_cycle p ?wd")
    case (Inl e')
    then have "e' = TypeError" by (simp add: current_cycle_eq split: if_splits)
    with assms ne Inl show ?thesis
      by (auto simp: process_raw_timestamps_def split: if_splits)
  next
    case (Inr ws)
    have b: "build_stations ws Map.empty = Inr (grouped ws)"
      by (rule build_stations_grouped [OF current_cycle_names [OF Inr]])
    from assms ne Inr b have "milestone_walk p sn (grouped ws) = Inl e"
      by (auto simp: process_raw_timestamps_def split: if_splits)
    then show ?thesis by (rule milestone_walk_grouped(2))
  qed
qed

lemma process_returns_iff:
  "(\<exists>res. process_raw_timestamps p sn h = Inr res) \<longleftrightarrow>
     filter is_workstation h = [] \<or>
     (receive_records (filter is_workstation h) = [] \<or>
        uniform (start_key p) (filter is_workstation h)) \<and>
     uniform (end_key p) (visits_of (working_set p (filter is_workstation h)) ''VI1'') \<and>
     uniform (end_key p) (visits_of (working_set p (filter is_workstation h)) ''PACKING'')"
proof (cases "filter is_workstation h = []")
  case True
  then show ?thesis by (simp add: process_raw_timestamps_def)
next
  case ne: False
  let ?wd = "filter is_workstation h"
  show ?thesis
  proof (cases "receive_records ?wd = [] \<or> uniform (start_key p) ?wd")
    case False
    then have "current_cycle p ?wd = Inl TypeError" by (simp add: current_cycle_eq)
    with ne False show ?thesis by (auto simp: process_raw_timestamps_def)
  next
    case True
    then have cc: "current_cycle p ?wd = Inr (working_set p ?wd)"
      by (simp add: current_cycle_eq)
    have b: "build_stations (working_set p ?wd) Map.empty = Inr (grouped (working_set p ?wd))"
      by (rule build_stations_grouped [OF current_cycle_names [OF cc]])
    have "process_raw_timestamps p sn h = milestone_walk p sn (grouped (working_set p ?wd))"
      using ne by (auto simp: process_raw_timestamps_def cc b)
    then show ?thesis
      using ne True milestone_walk_grouped(1) [of p sn "working_set p ?wd"] by simp
  qed
qed

lemma process_over_working_set:
  "process_raw_timestamps p sn h =
     (if filter is_workstation h = [] then Inr (empty_result sn)
      else if receive_records (filter is_workstation h) = [] \<or>
              uniform (start_key p) (filter is_workstation h)
      then milestone_walk p sn (grouped (working_set p (filter is_workstation h)))
      else Inl TypeError)"
proof (cases "filter is_workstation h = []")
  case True
  then show ?thesis by (simp add: process_raw_timestamps_def)
next
  case ne: False
  let ?wd = "filter is_workstation h"
  show ?thesis
  proof (cases "receive_records ?wd = [] \<or> uniform (start_key p) ?wd")
    case False
    then have "current_cycle p ?wd = Inl TypeError" by (simp add: current_cycle_eq)
    with ne False show ?thesis by (auto simp: process_raw_timestamps_def)
  next
    case True
    then have cc: "current_cycle p ?wd = Inr (working_set p ?wd)"
      by (simp add: current_cycle_eq)
    have b: "build_stations (working_set p ?wd) Map.empty = Inr (grouped (working_set p ?wd))"
      by (rule build_stations_grouped [OF current_cycle_names [OF cc]])
    have "process_raw_timestamps p sn h = milestone_walk p sn (grouped (working_set p ?wd))"
      using ne by (auto simp: process_raw_timestamps_def cc b)
    with ne True show ?thesis by simp
  qed
qed

section \<open>The display transform\<close>

lemma convert_unparseable:
  "parser (replace_Z s) = None \<Longrightarrow> convert_to_raw_timestamp parser s = Inr s"
  by (simp add: convert_to_raw_timestamp_def)

text \<open>
  The formatted result is stated from year 1000 on, where \<open>%Y\<close> has four digits on every
  platform.
\<close>

lemma convert_in_range:
  assumes "s \<noteq> []" and "parser (replace_Z s) = Some dt"
    and "days_before_year 1000 * us_per_day + 4 * us_per_hour \<le> wall dt"
    and "wall dt < max_ordinal * us_per_day"
  shows "convert_to_raw_timestamp parser s = Inr (strftime (Naive (wall dt - 4 * us_per_hour)))"
proof -
  have h: "0 < us_per_hour" by (simp add: us_per_hour_def us_per_second_def)
  have y: "4 * us_per_hour \<le> days_before_year 1000 * us_per_day"
    by (simp add: days_before_year_def us_per_day_def us_per_hour_def us_per_second_def)
  with assms(3) have lo: "8 * us_per_hour \<le> wall dt" by linarith
  have "replace_tzinfo_None dt = Naive (wall dt)" by (cases dt) simp_all
  then show ?thesis
    using assms(1,2,4) lo h by (simp add: convert_to_raw_timestamp_def)
qed

lemma convert_below_range:
  assumes "s \<noteq> []" and "parser (replace_Z s) = Some dt" and "wall dt < 8 * us_per_hour"
  shows "convert_to_raw_timestamp parser s = Inl OverflowError"
proof -
  have "replace_tzinfo_None dt = Naive (wall dt)" by (cases dt) simp_all
  then show ?thesis
    using assms by (simp add: convert_to_raw_timestamp_def)
qed

section \<open>The examples, evaluated\<close>

lemma chain_history_result:
  "process_raw_timestamps fromisoformat ''SN1'' chain_history =
     Inr \<lparr>serial_number = ''SN1'', vi1_end = Some ''2024-01-01T10:00:00'',
          vi1_next_station = Some ''UPGRADE'', vi1_next_start = Some ''2024-01-01T11:00:00'',
          upgrade_end = Some ''2024-01-01T12:00:00'', bbd_assy_station = Some ''BBD'',
          bbd_assy_start = Some ''2024-01-01T13:00:00'',
          bbd_assy_end = Some ''2024-01-01T14:00:00'',
          fla_chiflash_station = Some ''FLA'',
          fla_chiflash_start = Some ''2024-01-01T15:00:00'',
          packing_end = None, shipping_start = None\<rparr>"
  by code_simp

lemma open_upgrade_next:
  "next_station (grouped open_upgrade_history) (Some ''2024-01-01T10:00:00'') =
     Some (''UPGRADE'', ''2024-01-01T11:00:00'')"
  by code_simp

lemma open_upgrade_step:
  "upgrade_step (grouped open_upgrade_history) (Some ''2024-01-01T11:00:00'')
     (empty_result ''SN1'') = Inr (empty_result ''SN1'')"
  by code_simp

lemma tie_walk:
  "milestone_walk fromisoformat ''SN1'' (grouped tie_history) =
     Inr \<lparr>serial_number = ''SN1'', vi1_end = Some ''2024-01-01T10:00:00'',
          vi1_next_station = Some ''Disassembly'',
          vi1_next_start = Some ''2024-01-01T11:00:00'',
          upgrade_end = None, bbd_assy_station = None, bbd_assy_start = None,
          bbd_assy_end = None, fla_chiflash_station = None, fla_chiflash_start = None,
          packing_end = None, shipping_start = None\<rparr>"
  by code_simp

lemma tie_first_visits:
  "first_visit_after (grouped tie_history) ''Disassembly'' ''2024-01-01T10:00:00'' =
     Some \<lparr>start = Some ''2024-01-01T11:00:00'', end_time = Some ''2024-01-01T11:30:00''\<rparr>"
  "first_visit_after (grouped tie_history) ''UPGRADE'' ''2024-01-01T10:00:00'' =
     Some \<lparr>start = Some ''2024-01-01T11:00:00'', end_time = Some ''2024-01-01T12:00:00''\<rparr>"
  by code_simp+




lemma two_cycle_filtered: "two_cycle_history = filter is_workstation two_cycle_history"
  by code_simp

lemma two_cycle_uniform: "uniform (start_key fromisoformat) two_cycle_history"
  by code_simp

lemma two_cycle_working_set:
  "working_set fromisoformat two_cycle_history =
     [workstation_record ''RECEIVE'' (Some ''2024-01-02T08:00:00'') (Some ''2024-01-02T08:30:00''),
      workstation_record ''PACKING'' (Some ''2024-01-02T09:00:00'') (Some ''2024-01-02T10:00:00'')]"
  by code_simp

lemma two_cycle_boundary:
  "cycle_boundary fromisoformat two_cycle_history =
     workstation_record ''RECEIVE'' (Some ''2024-01-02T08:00:00'') (Some ''2024-01-02T08:30:00'')"
  by code_simp

lemma two_cycle_result:
  "process_raw_timestamps fromisoformat ''SN1'' two_cycle_history =
     Inr \<lparr>serial_number = ''SN1'', vi1_end = None, vi1_next_station = None,
          vi1_next_start = None, upgrade_end = None, bbd_assy_station = None,
          bbd_assy_start = None, bbd_assy_end = None, fla_chiflash_station = None,
          fla_chiflash_start = None, packing_end = Some ''2024-01-02T10:00:00'',
          shipping_start = None\<rparr>"
  by code_simp

lemma open_upgrade_result:
  "process_raw_timestamps fromisoformat ''SN1'' open_upgrade_history =
     Inr \<lparr>serial_number = ''SN1'', vi1_end = Some ''2024-01-01T10:00:00'',
          vi1_next_station = Some ''UPGRADE'', vi1_next_start = Some ''2024-01-01T11:00:00'',
          upgrade_end = None, bbd_assy_station = None, bbd_assy_start = None,
          bbd_assy_end = None, fla_chiflash_station = None, fla_chiflash_start = None,
          packing_end = None, shipping_start = None\<rparr>"
  by code_simp

lemma open_upgrade_walk:
  "milestone_walk fromisoformat ''SN1'' (grouped open_upgrade_history) =
     Inr \<lparr>serial_number = ''SN1'', vi1_end = Some ''2024-01-01T10:00:00'',
          vi1_next_station = Some ''UPGRADE'', vi1_next_start = Some ''2024-01-01T11:00:00'',
          upgrade_end = None, bbd_assy_station = None, bbd_assy_start = None,
          bbd_assy_end = None, fla_chiflash_station = None, fla_chiflash_start = None,
          packing_end = None, shipping_start = None\<rparr>"
  by code_simp

lemma open_upgrade_cycle:
  "current_cycle fromisoformat (filter is_workstation open_upgrade_history) =
     Inr open_upgrade_history"
  by code_simp

lemma open_upgrade_group:
  "grouped open_upgrade_history ''UPGRADE'' =
     Some [\<lparr>start = Some ''2024-01-01T11:00:00'', end_time = None\<rparr>]"
  by code_simp

lemma no_start_filtered: "filter is_workstation no_start_history = no_start_history"
  by code_simp

lemma no_start_cycle:
  "current_cycle fromisoformat no_start_history =
     Inr [workstation_record ''RECEIVE'' (Some ''2024-01-01T08:00:00'')
            (Some ''2024-01-01T08:30:00'')]"
  by code_simp

lemma no_start_group:
  "grouped [workstation_record ''RECEIVE'' (Some ''2024-01-01T08:00:00'')
              (Some ''2024-01-01T08:30:00'')] ''BBD'' = None"
  by code_simp

lemma no_start_build:
  "build_stations [workstation_record ''RECEIVE'' (Some ''2024-01-01T08:00:00'')
              (Some ''2024-01-01T08:30:00'')] Map.empty =
     Inr (grouped [workstation_record ''RECEIVE'' (Some ''2024-01-01T08:00:00'')
              (Some ''2024-01-01T08:30:00'')])"
  by (rule build_stations_grouped) (simp add: workstation_record_def)

section \<open>Empty and non-workstation input\<close>

text \<open>
  C8. When \<open>history_data\<close> is empty, or no record of it has the source tag
  \<open>workstation\<close> together with a station name, \<open>process_raw_timestamps\<close> returns normally,
  with \<open>serial_number\<close> the given serial number and the eleven other fields \<open>None\<close>.
\<close>

theorem empty_or_unfiltered_all_null:
  assumes "filter is_workstation history_data = []"
  shows "process_raw_timestamps parser sn history_data =
           Inr \<lparr>serial_number = sn, vi1_end = None, vi1_next_station = None,
                vi1_next_start = None, upgrade_end = None, bbd_assy_station = None,
                bbd_assy_start = None, bbd_assy_end = None, fla_chiflash_station = None,
                fla_chiflash_start = None, packing_end = None, shipping_start = None\<rparr>"
  using assms by (simp add: process_raw_timestamps_def empty_result_def)

theorem empty_or_unfiltered_all_null_witness:
  "filter is_workstation
     [\<lparr>source = Some ''sfc'', workstation_name = Some ''VI1'',
       history_station_start_time = Some ''2024-01-01T00:00:00'',
       history_station_end_time = Some ''2024-01-01T01:00:00''\<rparr>,
      \<lparr>source = Some ''workstation'', workstation_name = None,
       history_station_start_time = None, history_station_end_time = None\<rparr>] = [] \<and>
   process_raw_timestamps fromisoformat ''SN1''
     [\<lparr>source = Some ''sfc'', workstation_name = Some ''VI1'',
       history_station_start_time = Some ''2024-01-01T00:00:00'',
       history_station_end_time = Some ''2024-01-01T01:00:00''\<rparr>,
      \<lparr>source = Some ''workstation'', workstation_name = None,
       history_station_start_time = None, history_station_end_time = None\<rparr>] =
     Inr \<lparr>serial_number = ''SN1'', vi1_end = None, vi1_next_station = None,
          vi1_next_start = None, upgrade_end = None, bbd_assy_station = None,
          bbd_assy_start = None, bbd_assy_end = None, fla_chiflash_station = None,
          fla_chiflash_start = None, packing_end = None, shipping_start = None\<rparr>"
proof -
  have empty: "filter is_workstation
     [\<lparr>source = Some ''sfc'', workstation_name = Some ''VI1'',
       history_station_start_time = Some ''2024-01-01T00:00:00'',
       history_station_end_time = Some ''2024-01-01T01:00:00''\<rparr>,
      \<lparr>source = Some ''workstation'', workstation_name = None,
       history_station_start_time = None, history_station_end_time = None\<rparr>] = []"
    by (simp add: is_workstation_def truthy_def)
  from empty empty_or_unfiltered_all_null [OF empty, of fromisoformat "''SN1''"]
  show ?thesis by simp
qed

section \<open>The UPGRADE branch\<close>

text \<open>
  C7. Whenever \<open>process_raw_timestamps\<close> returns, \<open>upgrade_end\<close> is set only when
  \<open>vi1_next_station\<close> is \<open>UPGRADE\<close>; in that case it is the \<open>end\<close> of the first UPGRADE
  visit of the current cycle, in the order of the input, whose \<open>start\<close> equals
  \<open>vi1_next_start\<close>; and when \<open>vi1_next_station\<close> is anything else (Disassembly or
  \<open>None\<close>), \<open>upgrade_end\<close>, \<open>bbd_assy_station\<close>, \<open>bbd_assy_start\<close> and \<open>bbd_assy_end\<close>
  are all \<open>None\<close>.
\<close>

theorem upgrade_end_only_for_upgrade:
  assumes "process_raw_timestamps parser sn history_data = Inr res"
  shows "(upgrade_end res \<noteq> None \<longrightarrow> vi1_next_station res = Some ''UPGRADE'') \<and>
         (vi1_next_station res = Some ''UPGRADE'' \<longrightarrow>
            (\<exists>ws u. current_cycle parser (filter is_workstation history_data) = Inr ws \<and>
               find (\<lambda>t. start t = vi1_next_start res) (visits_of ws ''UPGRADE'') = Some u \<and>
               upgrade_end res = end_time u)) \<and>
         (vi1_next_station res \<noteq> Some ''UPGRADE'' \<longrightarrow>
            upgrade_end res = None \<and> bbd_assy_station res = None \<and>
            bbd_assy_start res = None \<and> bbd_assy_end res = None)"
proof -
  from process_Inr [OF assms]
  consider (empty) "res = empty_result sn"
    | (walk) ws where "current_cycle parser (filter is_workstation history_data) = Inr ws"
        "milestone_walk parser sn (grouped ws) = Inr res"
    by blast
  then show ?thesis
  proof cases
    case empty
    then show ?thesis by (simp add: empty_result_def)
  next
    case (walk ws)
    from milestone_walk_upgrade_fields [OF walk(2)]
    have up: "vi1_next_station res = Some ''UPGRADE'' \<longrightarrow>
            (\<exists>ts u. grouped ws ''UPGRADE'' = Some ts \<and>
               find (\<lambda>t. start t = vi1_next_start res) ts = Some u \<and>
               upgrade_end res = end_time u)"
      and other: "vi1_next_station res \<noteq> Some ''UPGRADE'' \<longrightarrow>
            upgrade_end res = None \<and> bbd_assy_station res = None \<and>
            bbd_assy_start res = None \<and> bbd_assy_end res = None"
      by blast+
    from up walk(1) have "vi1_next_station res = Some ''UPGRADE'' \<longrightarrow>
            (\<exists>ws u. current_cycle parser (filter is_workstation history_data) = Inr ws \<and>
               find (\<lambda>t. start t = vi1_next_start res) (visits_of ws ''UPGRADE'') = Some u \<and>
               upgrade_end res = end_time u)"
      by (auto dest: grouped_Some)
    with other show ?thesis by auto
  qed
qed

theorem upgrade_end_only_for_upgrade_witness:
  "process_raw_timestamps fromisoformat ''SN1'' chain_history =
     Inr \<lparr>serial_number = ''SN1'', vi1_end = Some ''2024-01-01T10:00:00'',
          vi1_next_station = Some ''UPGRADE'', vi1_next_start = Some ''2024-01-01T11:00:00'',
          upgrade_end = Some ''2024-01-01T12:00:00'', bbd_assy_station = Some ''BBD'',
          bbd_assy_start = Some ''2024-01-01T13:00:00'',
          bbd_assy_end = Some ''2024-01-01T14:00:00'',
          fla_chiflash_station = Some ''FLA'',
          fla_chiflash_start = Some ''2024-01-01T15:00:00'',
          packing_end = None, shipping_start = None\<rparr> \<and>
   (\<exists>ws u. current_cycle fromisoformat (filter is_workstation chain_history) = Inr ws \<and>
      find (\<lambda>t. start t = Some ''2024-01-01T11:00:00'') (visits_of ws ''UPGRADE'') = Some u \<and>
      Some ''2024-01-01T12:00:00'' = end_time u)"
  using upgrade_end_only_for_upgrade [OF chain_history_result] chain_history_result
  by simp

text \<open>
  C10. Whenever the station chosen after VI1 is UPGRADE, with start \<open>s\<close>, the dictionary
  has an UPGRADE list, the scan of line 213 for a visit whose \<open>start\<close> equals \<open>s\<close> finds
  a visit \<open>u\<close>, which is the visit the candidate came from, and \<open>upgrade_step\<close> returns
  through the branch that assigns \<open>upgrade_end\<close> from \<open>u\<close> (its \<open>end\<close>, which may be
  \<open>None\<close>): neither the no-match branch nor the \<open>KeyError\<close> is reached.
\<close>

theorem matching_upgrade_always_found:
  assumes "next_station st vi1e = Some (''UPGRADE'', s)"
  shows "\<exists>ts u. st ''UPGRADE'' = Some ts \<and>
           first_after ts vi1e = Some (s, end_time u) \<and>
           find (\<lambda>t. start t = Some s) ts = Some u \<and>
           upgrade_step st (Some s) result =
             Inr (bbd_assy_step st (end_time u) (result\<lparr>upgrade_end := end_time u\<rparr>))"
proof -
  from assms obtain ts u where ts: "st ''UPGRADE'' = Some ts"
    and m: "find (\<lambda>t. start t = Some s) ts = Some u"
    and u: "find (\<lambda>t. is_after (start t) vi1e) ts = Some u" and s: "start u = Some s"
    by (rule next_station_UPGRADE_match)
  have "first_after ts vi1e = Some (s, end_time u)" using u s by (simp add: first_after_find)
  moreover have "upgrade_step st (Some s) result =
      Inr (bbd_assy_step st (end_time u) (result\<lparr>upgrade_end := end_time u\<rparr>))"
    using ts m by (rule upgrade_step_matching)
  ultimately show ?thesis using ts m by blast
qed

theorem matching_upgrade_always_found_witness:
  "next_station (grouped open_upgrade_history) (Some ''2024-01-01T10:00:00'') =
     Some (''UPGRADE'', ''2024-01-01T11:00:00'') \<and>
   (\<exists>ts u. grouped open_upgrade_history ''UPGRADE'' = Some ts \<and>
      first_after ts (Some ''2024-01-01T10:00:00'') = Some (''2024-01-01T11:00:00'', end_time u) \<and>
      find (\<lambda>t. start t = Some ''2024-01-01T11:00:00'') ts = Some u \<and>
      upgrade_step (grouped open_upgrade_history) (Some ''2024-01-01T11:00:00'')
        (empty_result ''SN1'') =
        Inr (bbd_assy_step (grouped open_upgrade_history) (end_time u)
               ((empty_result ''SN1'')\<lparr>upgrade_end := end_time u\<rparr>))) \<and>
   upgrade_step (grouped open_upgrade_history) (Some ''2024-01-01T11:00:00'')
     (empty_result ''SN1'') = Inr (empty_result ''SN1'')"
  using matching_upgrade_always_found [OF open_upgrade_next, of "empty_result ''SN1''"]
    open_upgrade_next open_upgrade_step
  by simp

section \<open>The station after VI1\<close>

text \<open>
  C4. For every station dictionary on which the walk returns with a \<open>vi1_end\<close> that is a
  non-empty string \<open>e\<close>: VI1 is present; Disassembly and UPGRADE each contribute at most
  one candidate, the first visit of the station's list whose \<open>start\<close> string is strictly
  greater than \<open>e\<close>; \<open>vi1_next_station\<close> and \<open>vi1_next_start\<close> are those of the
  candidate with the smaller \<open>start\<close> string, and Disassembly wins when the two strings are
  equal.
\<close>

theorem next_station_after_vi1:
  assumes "milestone_walk parser sn st = Inr res" and "vi1_end res = Some e" and "e \<noteq> []"
  shows "st ''VI1'' \<noteq> None \<and>
     (vi1_next_station res, vi1_next_start res) =
       (case (first_visit_after st ''Disassembly'' e, first_visit_after st ''UPGRADE'' e) of
          (None, None) \<Rightarrow> (None, None)
        | (Some d, None) \<Rightarrow> (Some ''Disassembly'', start d)
        | (None, Some u) \<Rightarrow> (Some ''UPGRADE'', start u)
        | (Some d, Some u) \<Rightarrow>
            if the (start u) < the (start d) then (Some ''UPGRADE'', start u)
            else (Some ''Disassembly'', start d))"
proof -
  from assms(1) obtain r1 where r1: "vi1_step parser st (empty_result sn) = Inr r1"
    and eqs: "vi1_end res = vi1_end r1" "vi1_next_station res = vi1_next_station r1"
      "vi1_next_start res = vi1_next_start r1"
    by (rule milestone_walk_vi1_fields)
  from r1 show ?thesis
  proof (cases rule: vi1_step_elim)
    case none
    with assms(2) eqs show ?thesis by (simp add: empty_result_def)
  next
    case (some ts)
    from after_vi1_fields [OF some(4)] eqs assms(2)
    have e: "end_time (last (sort_key (\<lambda>x. instant (end_key parser x)) ts)) = Some e"
      and nx: "vi1_next_station res = map_option fst (next_station st (Some e))"
        "vi1_next_start res = map_option snd (next_station st (Some e))"
      by simp_all
    show ?thesis
      using some(1)
      by (auto simp: nx next_station_first_visit_after [OF assms(3)]
          split: option.splits dest: first_visit_after_start)
  qed
qed

theorem next_station_after_vi1_witness:
  "milestone_walk fromisoformat ''SN1'' (grouped tie_history) =
     Inr \<lparr>serial_number = ''SN1'', vi1_end = Some ''2024-01-01T10:00:00'',
          vi1_next_station = Some ''Disassembly'',
          vi1_next_start = Some ''2024-01-01T11:00:00'',
          upgrade_end = None, bbd_assy_station = None, bbd_assy_start = None,
          bbd_assy_end = None, fla_chiflash_station = None, fla_chiflash_start = None,
          packing_end = None, shipping_start = None\<rparr> \<and>
   ''2024-01-01T10:00:00'' \<noteq> [] \<and>
   grouped tie_history ''VI1'' \<noteq> None \<and>
   first_visit_after (grouped tie_history) ''Disassembly'' ''2024-01-01T10:00:00'' =
     Some \<lparr>start = Some ''2024-01-01T11:00:00'', end_time = Some ''2024-01-01T11:30:00''\<rparr> \<and>
   first_visit_after (grouped tie_history) ''UPGRADE'' ''2024-01-01T10:00:00'' =
     Some \<lparr>start = Some ''2024-01-01T11:00:00'', end_time = Some ''2024-01-01T12:00:00''\<rparr>"
  using next_station_after_vi1 [OF tie_walk, of "''2024-01-01T10:00:00''"] tie_walk
    tie_first_visits
  by simp

section \<open>PACKING and SHIPPING\<close>



section \<open>The cycle boundary\<close>

text \<open>
  Where the parsed start times can be ordered. Let \<open>wd\<close> be the filtered records of an
  input. When \<open>wd\<close> has no RECEIVE record the working set is \<open>wd\<close>. When it has one, and
  the parsed start times of \<open>wd\<close> are all naive or all aware, the cycle boundary is the
  RECEIVE record that is last after sorting the RECEIVE records by parsed start time
  (unparseable and missing start times parse to \<open>datetime.min\<close>), its parsed start time is
  the greatest of the RECEIVE records, and the working set is exactly the records of \<open>wd\<close>
  whose parsed start time is at or after the boundary's; every milestone is derived from
  the stations of that working set (\<open>process_over_working_set\<close> above). A record whose
  parsed start time is strictly before that of some RECEIVE record (so a VI1 visit between
  an earlier and a later RECEIVE) is not in the working set; a populated \<open>vi1_end\<close> is the
  \<open>end\<close> of a VI1 record of the working set; and when every VI1 record starts strictly
  before some RECEIVE record, \<open>vi1_end\<close> is \<open>None\<close>. When \<open>wd\<close> has a RECEIVE record and
  both naive and aware start times, the comparison raises \<open>TypeError\<close> and there is no
  working set.
\<close>

lemma cycle_bounded_by_latest_receive:
  assumes "wd = filter is_workstation history_data"
  shows "current_cycle parser wd =
           (if receive_records wd = [] \<or> uniform (start_key parser) wd
            then Inr (working_set parser wd) else Inl TypeError) \<and>
    (receive_records wd \<noteq> [] \<longrightarrow>
       cycle_boundary parser wd \<in> set (receive_records wd) \<and>
       (\<forall>r\<in>set (receive_records wd).
          instant (start_key parser r) \<le> instant (start_key parser (cycle_boundary parser wd)))) \<and>
    (\<forall>v r2. r2 \<in> set (receive_records wd) \<longrightarrow>
       instant (start_key parser v) < instant (start_key parser r2) \<longrightarrow>
       v \<notin> set (working_set parser wd)) \<and>
    (\<forall>res. process_raw_timestamps parser sn history_data = Inr res \<longrightarrow>
       (vi1_end res \<noteq> None \<longrightarrow>
          (\<exists>w\<in>set (working_set parser wd).
             workstation_name w = Some ''VI1'' \<and> history_station_end_time w = vi1_end res)) \<and>
       ((\<exists>r2\<in>set (receive_records wd). \<forall>v\<in>set wd. workstation_name v = Some ''VI1'' \<longrightarrow>
            instant (start_key parser v) < instant (start_key parser r2)) \<longrightarrow>
          vi1_end res = None))"
proof -
  have c1: "current_cycle parser wd =
           (if receive_records wd = [] \<or> uniform (start_key parser) wd
            then Inr (working_set parser wd) else Inl TypeError)"
    by (rule current_cycle_eq)
  have c2: "receive_records wd \<noteq> [] \<longrightarrow>
       cycle_boundary parser wd \<in> set (receive_records wd) \<and>
       (\<forall>r\<in>set (receive_records wd).
          instant (start_key parser r) \<le> instant (start_key parser (cycle_boundary parser wd)))"
    using cycle_boundary_in cycle_boundary_max by (intro impI conjI)
  have c3: "\<forall>v r2. r2 \<in> set (receive_records wd) \<longrightarrow>
       instant (start_key parser v) < instant (start_key parser r2) \<longrightarrow>
       v \<notin> set (working_set parser wd)"
    using before_receive_not_in_working_set by (intro allI impI)
  have c4: "\<forall>res. process_raw_timestamps parser sn history_data = Inr res \<longrightarrow>
       (vi1_end res \<noteq> None \<longrightarrow>
          (\<exists>w\<in>set (working_set parser wd).
             workstation_name w = Some ''VI1'' \<and> history_station_end_time w = vi1_end res)) \<and>
       ((\<exists>r2\<in>set (receive_records wd). \<forall>v\<in>set wd. workstation_name v = Some ''VI1'' \<longrightarrow>
            instant (start_key parser v) < instant (start_key parser r2)) \<longrightarrow>
          vi1_end res = None)"
  proof (intro allI impI)
    fix res assume pr: "process_raw_timestamps parser sn history_data = Inr res"
    have populated: "\<exists>w\<in>set (working_set parser wd).
             workstation_name w = Some ''VI1'' \<and> history_station_end_time w = vi1_end res"
      if "vi1_end res \<noteq> None"
    proof -
      from process_Inr [OF pr] that obtain ws
        where ws: "current_cycle parser (filter is_workstation history_data) = Inr ws"
          and walk: "milestone_walk parser sn (grouped ws) = Inr res"
        by (auto simp: empty_result_def)
      from ws have "ws = working_set parser wd"
        unfolding assms [symmetric] by (rule current_cycle_Inr)
      with milestone_walk_vi1_end [OF walk] that show ?thesis by auto
    qed
    have absent: "vi1_end res = None"
      if "\<exists>r2\<in>set (receive_records wd). \<forall>v\<in>set wd. workstation_name v = Some ''VI1'' \<longrightarrow>
            instant (start_key parser v) < instant (start_key parser r2)"
    proof (rule ccontr)
      assume "vi1_end res \<noteq> None"
      from populated [OF this] obtain w where w: "w \<in> set (working_set parser wd)"
        "workstation_name w = Some ''VI1''" by blast
      have "w \<in> set wd" using w(1) by (simp add: working_set_def split: if_splits)
      with that w(2) obtain r2 where "r2 \<in> set (receive_records wd)"
        "instant (start_key parser w) < instant (start_key parser r2)" by blast
      from before_receive_not_in_working_set [OF this] w(1) show False by simp
    qed
    from populated absent
    show "(vi1_end res \<noteq> None \<longrightarrow>
          (\<exists>w\<in>set (working_set parser wd).
             workstation_name w = Some ''VI1'' \<and> history_station_end_time w = vi1_end res)) \<and>
       ((\<exists>r2\<in>set (receive_records wd). \<forall>v\<in>set wd. workstation_name v = Some ''VI1'' \<longrightarrow>
            instant (start_key parser v) < instant (start_key parser r2)) \<longrightarrow>
          vi1_end res = None)"
      by (intro conjI impI)
  qed
  from c1 c2 c3 c4 show ?thesis by (intro conjI)
qed

lemma cycle_bounded_by_latest_receive_example:
  "two_cycle_history = filter is_workstation two_cycle_history \<and>
   current_cycle fromisoformat two_cycle_history =
     Inr [workstation_record ''RECEIVE'' (Some ''2024-01-02T08:00:00'') (Some ''2024-01-02T08:30:00''),
          workstation_record ''PACKING'' (Some ''2024-01-02T09:00:00'') (Some ''2024-01-02T10:00:00'')] \<and>
   cycle_boundary fromisoformat two_cycle_history =
     workstation_record ''RECEIVE'' (Some ''2024-01-02T08:00:00'') (Some ''2024-01-02T08:30:00'') \<and>
   workstation_record ''VI1'' (Some ''2024-01-01T09:00:00'') (Some ''2024-01-01T10:00:00'')
     \<notin> set (working_set fromisoformat two_cycle_history) \<and>
   process_raw_timestamps fromisoformat ''SN1'' two_cycle_history =
     Inr \<lparr>serial_number = ''SN1'', vi1_end = None, vi1_next_station = None,
          vi1_next_start = None, upgrade_end = None, bbd_assy_station = None,
          bbd_assy_start = None, bbd_assy_end = None, fla_chiflash_station = None,
          fla_chiflash_start = None, packing_end = Some ''2024-01-02T10:00:00'',
          shipping_start = None\<rparr>"
proof -
  from cycle_bounded_by_latest_receive [OF two_cycle_filtered, of fromisoformat "''SN1''"]
  have "current_cycle fromisoformat two_cycle_history =
           (if receive_records two_cycle_history = [] \<or>
               uniform (start_key fromisoformat) two_cycle_history
            then Inr (working_set fromisoformat two_cycle_history) else Inl TypeError)"
    by (elim conjE)
  then have cc: "current_cycle fromisoformat two_cycle_history =
     Inr [workstation_record ''RECEIVE'' (Some ''2024-01-02T08:00:00'') (Some ''2024-01-02T08:30:00''),
          workstation_record ''PACKING'' (Some ''2024-01-02T09:00:00'') (Some ''2024-01-02T10:00:00'')]"
    by (simp add: two_cycle_uniform two_cycle_working_set)
  have out: "workstation_record ''VI1'' (Some ''2024-01-01T09:00:00'') (Some ''2024-01-01T10:00:00'')
     \<notin> set (working_set fromisoformat two_cycle_history)"
    unfolding two_cycle_working_set by (simp add: workstation_record_def)
  from two_cycle_filtered cc two_cycle_boundary out two_cycle_result
  show ?thesis by (intro conjI)
qed

text \<open>
  C2. The claim is that for every input with a filtered RECEIVE record the working set is
  the filtered records whose parsed start time is at or after the boundary's, missing and
  unparseable start times parsing to the minimum. It fails where the RECEIVE start carries
  an offset (here \<open>Z\<close>) and another record has no start: the RECEIVE record is found, its
  start parses to an aware \<open>datetime\<close>, the missing start parses to the naive
  \<open>datetime.min\<close>, and the comparison of line 135 raises \<open>TypeError\<close>, so that no working
  set is built and no milestone is derived.
\<close>

theorem aware_receive_has_no_working_set:
  "receive_records (filter is_workstation aware_receive_history) =
     [workstation_record ''RECEIVE'' (Some ''2024-01-01T08:00:00Z'')
        (Some ''2024-01-01T08:30:00Z'')] \<and>
   current_cycle fromisoformat (filter is_workstation aware_receive_history) = Inl TypeError"
  by code_simp

section \<open>The end-to-end example\<close>

text \<open>
  C1. For the input \<open>[RECEIVE(start=T0), VI1(start=T1,end=T2), UPGRADE(start=T3,end=T4),
  BBD(start=T5,end=T6), FLA(start=T7)]\<close>, all with the source tag \<open>workstation\<close>, with
  \<open>T0 < T1 < ... < T7\<close> as strings and as times (the starts \<open>T1\<close>, \<open>T3\<close>, \<open>T5\<close>, \<open>T7\<close>
  parse to values at or after the parsed \<open>T0\<close>), \<open>process_raw_timestamps\<close> returns
  \<open>vi1_end = T2\<close>, \<open>vi1_next_station = UPGRADE\<close>, \<open>vi1_next_start = T3\<close>,
  \<open>upgrade_end = T4\<close>, \<open>bbd_assy_station = BBD\<close>, \<open>bbd_assy_start = T5\<close>,
  \<open>bbd_assy_end = T6\<close>, \<open>fla_chiflash_station = FLA\<close>, \<open>fla_chiflash_start = T7\<close>, and
  \<open>packing_end\<close> and \<open>shipping_start\<close> \<open>None\<close>. The \<open>end\<close> of RECEIVE and of FLA is
  arbitrary.
\<close>

theorem end_to_end_chain:
  assumes order: "T0 < T1" "T1 < T2" "T2 < T3" "T3 < T4" "T4 < T5" "T5 < T6" "T6 < T7"
    and chrono:
      "dt_ge (parse_timestamp parser (Some T1)) (parse_timestamp parser (Some T0)) = Inr True"
      "dt_ge (parse_timestamp parser (Some T3)) (parse_timestamp parser (Some T0)) = Inr True"
      "dt_ge (parse_timestamp parser (Some T5)) (parse_timestamp parser (Some T0)) = Inr True"
      "dt_ge (parse_timestamp parser (Some T7)) (parse_timestamp parser (Some T0)) = Inr True"
  shows "process_raw_timestamps parser sn
           [workstation_record ''RECEIVE'' (Some T0) e0,
            workstation_record ''VI1'' (Some T1) (Some T2),
            workstation_record ''UPGRADE'' (Some T3) (Some T4),
            workstation_record ''BBD'' (Some T5) (Some T6),
            workstation_record ''FLA'' (Some T7) e7] =
         Inr \<lparr>serial_number = sn, vi1_end = Some T2, vi1_next_station = Some ''UPGRADE'',
              vi1_next_start = Some T3, upgrade_end = Some T4, bbd_assy_station = Some ''BBD'',
              bbd_assy_start = Some T5, bbd_assy_end = Some T6,
              fla_chiflash_station = Some ''FLA'', fla_chiflash_start = Some T7,
              packing_end = None, shipping_start = None\<rparr>"
proof -
  let ?h = "[workstation_record ''RECEIVE'' (Some T0) e0,
            workstation_record ''VI1'' (Some T1) (Some T2),
            workstation_record ''UPGRADE'' (Some T3) (Some T4),
            workstation_record ''BBD'' (Some T5) (Some T6),
            workstation_record ''FLA'' (Some T7) e7]"
  have ne: "T2 \<noteq> []" "T3 \<noteq> []" "T4 \<noteq> []" "T5 \<noteq> []" "T6 \<noteq> []" "T7 \<noteq> []"
    using order by (auto dest: less_nonempty)
  have filt: "filter is_workstation ?h = ?h"
    by (simp add: is_workstation_def workstation_record_def truthy_def)
  have recv: "receive_records ?h = [workstation_record ''RECEIVE'' (Some T0) e0]"
    by (simp add: receive_records_def workstation_record_def)
  have keys: "start_key parser (workstation_record n s e) = parse_timestamp parser s" for n s e
    by (simp add: start_key_def workstation_record_def)
  have cyc: "current_cycle parser ?h = Inr ?h"
    unfolding current_cycle_def recv
    by (simp add: py_sorted_single py_last_single keys dt_ge_refl chrono del: py_sorted.simps)
  have names: "list_all (\<lambda>r. workstation_name r \<noteq> None) ?h"
    by (simp add: workstation_record_def)
  have build: "build_stations ?h Map.empty = Inr (grouped ?h)"
    by (rule build_stations_grouped [OF names])
  have st: "grouped ?h ''VI1'' = Some [\<lparr>start = Some T1, end_time = Some T2\<rparr>]"
    "grouped ?h ''UPGRADE'' = Some [\<lparr>start = Some T3, end_time = Some T4\<rparr>]"
    "grouped ?h ''BBD'' = Some [\<lparr>start = Some T5, end_time = Some T6\<rparr>]"
    "grouped ?h ''FLA'' = Some [\<lparr>start = Some T7, end_time = e7\<rparr>]"
    "grouped ?h ''Disassembly'' = None"
    "grouped ?h ''ASSY1'' = None"
    "grouped ?h ''Assembley'' = None"
    "grouped ?h ''CHIFLASH'' = None"
    "grouped ?h ''PACKING'' = None"
    by (simp_all add: grouped_def visits_of_def workstation_record_def)
  have cand: "candidate (grouped ?h) ''Disassembly'' r = []"
    "candidate (grouped ?h) ''ASSY1'' r = []"
    "candidate (grouped ?h) ''Assembley'' r = []"
    "candidate (grouped ?h) ''CHIFLASH'' r = []"
    "candidate (grouped ?h) ''UPGRADE'' (Some T2) = [(''UPGRADE'', T3, Some T4)]"
    "candidate (grouped ?h) ''BBD'' (Some T4) = [(''BBD'', T5, Some T6)]"
    "candidate (grouped ?h) ''FLA'' (Some T6) = [(''FLA'', T7, e7)]" for r
    using order ne by (simp_all add: candidate_def st is_after_def truthy_def)
  have nxt: "next_station (grouped ?h) (Some T2) = Some (''UPGRADE'', T3)"
    by (simp add: next_station_def cand sort_candidates_single)
  have up: "upgrade_step (grouped ?h) (Some T3) r =
      Inr (r\<lparr>upgrade_end := Some T4, bbd_assy_station := Some ''BBD'',
              bbd_assy_start := Some T5, bbd_assy_end := Some T6\<rparr>)" for r
    by (simp add: upgrade_step_def st bbd_assy_step_def cand sort_candidates_single)
  have vi1: "vi1_step parser (grouped ?h) (empty_result sn) =
      Inr ((empty_result sn)\<lparr>vi1_end := Some T2, vi1_next_station := Some ''UPGRADE'',
              vi1_next_start := Some T3, upgrade_end := Some T4,
              bbd_assy_station := Some ''BBD'', bbd_assy_start := Some T5,
              bbd_assy_end := Some T6\<rparr>)"
    by (simp add: vi1_step_def st py_sorted_single py_last_single after_vi1_def nxt up
        del: py_sorted.simps)
  have walk: "milestone_walk parser sn (grouped ?h) =
      Inr ((empty_result sn)\<lparr>vi1_end := Some T2, vi1_next_station := Some ''UPGRADE'',
              vi1_next_start := Some T3, upgrade_end := Some T4,
              bbd_assy_station := Some ''BBD'', bbd_assy_start := Some T5,
              bbd_assy_end := Some T6, fla_chiflash_station := Some ''FLA'',
              fla_chiflash_start := Some T7\<rparr>)"
    using ne
    by (simp add: milestone_walk_def vi1 fla_chiflash_step_def truthy_def cand
        sort_candidates_single packing_step_def st)
  show ?thesis
    unfolding process_raw_timestamps_def filt cyc sum.case build walk
    by (simp add: empty_result_def)
qed

theorem end_to_end_chain_witness:
  "''2024-01-01T08:00:00'' < ''2024-01-01T09:00:00'' \<and>
   ''2024-01-01T09:00:00'' < ''2024-01-01T10:00:00'' \<and>
   ''2024-01-01T10:00:00'' < ''2024-01-01T11:00:00'' \<and>
   ''2024-01-01T11:00:00'' < ''2024-01-01T12:00:00'' \<and>
   ''2024-01-01T12:00:00'' < ''2024-01-01T13:00:00'' \<and>
   ''2024-01-01T13:00:00'' < ''2024-01-01T14:00:00'' \<and>
   ''2024-01-01T14:00:00'' < ''2024-01-01T15:00:00'' \<and>
   dt_ge (parse_timestamp fromisoformat (Some ''2024-01-01T09:00:00''))
     (parse_timestamp fromisoformat (Some ''2024-01-01T08:00:00'')) = Inr True \<and>
   dt_ge (parse_timestamp fromisoformat (Some ''2024-01-01T11:00:00''))
     (parse_timestamp fromisoformat (Some ''2024-01-01T08:00:00'')) = Inr True \<and>
   dt_ge (parse_timestamp fromisoformat (Some ''2024-01-01T13:00:00''))
     (parse_timestamp fromisoformat (Some ''2024-01-01T08:00:00'')) = Inr True \<and>
   dt_ge (parse_timestamp fromisoformat (Some ''2024-01-01T15:00:00''))
     (parse_timestamp fromisoformat (Some ''2024-01-01T08:00:00'')) = Inr True \<and>
   process_raw_timestamps fromisoformat ''SN1'' chain_history =
     Inr \<lparr>serial_number = ''SN1'', vi1_end = Some ''2024-01-01T10:00:00'',
          vi1_next_station = Some ''UPGRADE'', vi1_next_start = Some ''2024-01-01T11:00:00'',
          upgrade_end = Some ''2024-01-01T12:00:00'', bbd_assy_station = Some ''BBD'',
          bbd_assy_start = Some ''2024-01-01T13:00:00'',
          bbd_assy_end = Some ''2024-01-01T14:00:00'',
          fla_chiflash_station = Some ''FLA'',
          fla_chiflash_start = Some ''2024-01-01T15:00:00'',
          packing_end = None, shipping_start = None\<rparr>"
proof -
  have o: "''2024-01-01T08:00:00'' < ''2024-01-01T09:00:00''"
    "''2024-01-01T09:00:00'' < ''2024-01-01T10:00:00''"
    "''2024-01-01T10:00:00'' < ''2024-01-01T11:00:00''"
    "''2024-01-01T11:00:00'' < ''2024-01-01T12:00:00''"
    "''2024-01-01T12:00:00'' < ''2024-01-01T13:00:00''"
    "''2024-01-01T13:00:00'' < ''2024-01-01T14:00:00''"
    "''2024-01-01T14:00:00'' < ''2024-01-01T15:00:00''"
    by code_simp+
  have c: "dt_ge (parse_timestamp fromisoformat (Some ''2024-01-01T09:00:00''))
     (parse_timestamp fromisoformat (Some ''2024-01-01T08:00:00'')) = Inr True"
    "dt_ge (parse_timestamp fromisoformat (Some ''2024-01-01T11:00:00''))
     (parse_timestamp fromisoformat (Some ''2024-01-01T08:00:00'')) = Inr True"
    "dt_ge (parse_timestamp fromisoformat (Some ''2024-01-01T13:00:00''))
     (parse_timestamp fromisoformat (Some ''2024-01-01T08:00:00'')) = Inr True"
    "dt_ge (parse_timestamp fromisoformat (Some ''2024-01-01T15:00:00''))
     (parse_timestamp fromisoformat (Some ''2024-01-01T08:00:00'')) = Inr True"
    by code_simp+
  have "process_raw_timestamps fromisoformat ''SN1'' chain_history =
     Inr \<lparr>serial_number = ''SN1'', vi1_end = Some ''2024-01-01T10:00:00'',
          vi1_next_station = Some ''UPGRADE'', vi1_next_start = Some ''2024-01-01T11:00:00'',
          upgrade_end = Some ''2024-01-01T12:00:00'', bbd_assy_station = Some ''BBD'',
          bbd_assy_start = Some ''2024-01-01T13:00:00'',
          bbd_assy_end = Some ''2024-01-01T14:00:00'',
          fla_chiflash_station = Some ''FLA'',
          fla_chiflash_start = Some ''2024-01-01T15:00:00'',
          packing_end = None, shipping_start = None\<rparr>"
    unfolding chain_history_def
    by (rule end_to_end_chain [OF o c])
  with o c show ?thesis by (intro conjI)
qed

section \<open>Missing start and end times\<close>

text \<open>
  C5, as the code has it. Every record of the working set is in the list of its station,
  whatever its \<open>start\<close> and \<open>end\<close>; a filtered record whose \<open>start\<close> is missing is in the
  working set only when no RECEIVE record has a later parsed start. A visit whose \<open>start\<close>
  is missing or empty is skipped by every scan (the scan gives what it gives without that
  visit), and a scan against a missing or empty reference selects nothing: every selected
  start is strictly greater than a non-empty \<open>vi1_end\<close>, \<open>upgrade_end\<close>, \<open>bbd_assy_end\<close> or
  \<open>packing_end\<close>. The \<open>end\<close> of the scanned visit is not tested, so a visit whose \<open>end\<close>
  is missing can be selected.
\<close>

theorem missing_times_grouping_and_scans:
  assumes "current_cycle parser (filter is_workstation history_data) = Inr ws"
  shows "build_stations ws Map.empty = Inr (grouped ws) \<and>
    (\<forall>r\<in>set ws. \<exists>n ts. workstation_name r = Some n \<and> grouped ws n = Some ts \<and>
        \<lparr>start = history_station_start_time r, end_time = history_station_end_time r\<rparr> \<in> set ts) \<and>
    (\<forall>pre t post ref. \<not> truthy (start t) \<longrightarrow>
        first_after (pre @ t # post) ref = first_after (pre @ post) ref) \<and>
    (\<forall>ts ref. \<not> truthy ref \<longrightarrow> first_after ts ref = None) \<and>
    (\<forall>res. milestone_walk parser sn (grouped ws) = Inr res \<longrightarrow>
       (\<forall>s. vi1_next_start res = Some s \<longrightarrow> (\<exists>e. vi1_end res = Some e \<and> e \<noteq> [] \<and> e < s)) \<and>
       (\<forall>s. bbd_assy_start res = Some s \<longrightarrow> (\<exists>e. upgrade_end res = Some e \<and> e \<noteq> [] \<and> e < s)) \<and>
       (\<forall>s. fla_chiflash_start res = Some s \<longrightarrow>
          (\<exists>e. bbd_assy_end res = Some e \<and> e \<noteq> [] \<and> e < s)) \<and>
       (\<forall>s. shipping_start res = Some s \<longrightarrow> (\<exists>e. packing_end res = Some e \<and> e \<noteq> [] \<and> e < s)))"
proof -
  have names: "list_all (\<lambda>r. workstation_name r \<noteq> None) ws"
    using assms by (rule current_cycle_names)
  have c1: "build_stations ws Map.empty = Inr (grouped ws)"
    using names by (rule build_stations_grouped)
  have c2: "\<forall>r\<in>set ws. \<exists>n ts. workstation_name r = Some n \<and> grouped ws n = Some ts \<and>
        \<lparr>start = history_station_start_time r, end_time = history_station_end_time r\<rparr> \<in> set ts"
  proof
    fix r assume r: "r \<in> set ws"
    with names obtain n where n: "workstation_name r = Some n"
      by (auto simp: list_all_iff)
    from grouped_member [OF r n] n
    show "\<exists>n ts. workstation_name r = Some n \<and> grouped ws n = Some ts \<and>
        \<lparr>start = history_station_start_time r, end_time = history_station_end_time r\<rparr> \<in> set ts"
      by (intro exI conjI)
  qed
  have c3: "\<forall>pre t post ref. \<not> truthy (start t) \<longrightarrow>
        first_after (pre @ t # post) ref = first_after (pre @ post) ref"
    by (intro allI impI) (rule first_after_skip)
  have c4: "\<forall>ts ref. \<not> truthy ref \<longrightarrow> first_after ts ref = None"
    by (intro allI impI) (rule first_after_falsy)
  have c5: "\<forall>res. milestone_walk parser sn (grouped ws) = Inr res \<longrightarrow>
       (\<forall>s. vi1_next_start res = Some s \<longrightarrow> (\<exists>e. vi1_end res = Some e \<and> e \<noteq> [] \<and> e < s)) \<and>
       (\<forall>s. bbd_assy_start res = Some s \<longrightarrow> (\<exists>e. upgrade_end res = Some e \<and> e \<noteq> [] \<and> e < s)) \<and>
       (\<forall>s. fla_chiflash_start res = Some s \<longrightarrow>
          (\<exists>e. bbd_assy_end res = Some e \<and> e \<noteq> [] \<and> e < s)) \<and>
       (\<forall>s. shipping_start res = Some s \<longrightarrow> (\<exists>e. packing_end res = Some e \<and> e \<noteq> [] \<and> e < s))"
    by (intro allI impI) (rule milestone_walk_starts)
  from c1 c2 c3 c4 c5 show ?thesis by (intro conjI)
qed

theorem missing_times_grouping_and_scans_witness:
  "current_cycle fromisoformat (filter is_workstation open_upgrade_history) =
     Inr open_upgrade_history \<and>
   build_stations open_upgrade_history Map.empty = Inr (grouped open_upgrade_history) \<and>
   grouped open_upgrade_history ''UPGRADE'' =
     Some [\<lparr>start = Some ''2024-01-01T11:00:00'', end_time = None\<rparr>] \<and>
   milestone_walk fromisoformat ''SN1'' (grouped open_upgrade_history) =
     Inr \<lparr>serial_number = ''SN1'', vi1_end = Some ''2024-01-01T10:00:00'',
          vi1_next_station = Some ''UPGRADE'', vi1_next_start = Some ''2024-01-01T11:00:00'',
          upgrade_end = None, bbd_assy_station = None, bbd_assy_start = None,
          bbd_assy_end = None, fla_chiflash_station = None, fla_chiflash_start = None,
          packing_end = None, shipping_start = None\<rparr> \<and>
   first_after [\<lparr>start = None, end_time = Some ''2024-01-01T12:00:00''\<rparr>,
               \<lparr>start = Some ''2024-01-01T11:00:00'', end_time = None\<rparr>]
     (Some ''2024-01-01T10:00:00'') = Some (''2024-01-01T11:00:00'', None)"
proof -
  note inst = missing_times_grouping_and_scans [OF open_upgrade_cycle, of "''SN1''"]
  from inst have b: "build_stations open_upgrade_history Map.empty =
      Inr (grouped open_upgrade_history)"
    by (rule conjunct1)
  from inst have skip: "\<forall>pre t post ref. \<not> truthy (start t) \<longrightarrow>
        first_after (pre @ t # post) ref = first_after (pre @ post) ref"
    by (elim conjE)
  have "first_after ([] @ \<lparr>start = None, end_time = Some ''2024-01-01T12:00:00''\<rparr> #
               [\<lparr>start = Some ''2024-01-01T11:00:00'', end_time = None\<rparr>])
     (Some ''2024-01-01T10:00:00'') =
     first_after ([] @ [\<lparr>start = Some ''2024-01-01T11:00:00'', end_time = None\<rparr>])
       (Some ''2024-01-01T10:00:00'')"
    by (rule skip [rule_format]) (simp add: truthy_def)
  also have "\<dots> = Some (''2024-01-01T11:00:00'', None)" by code_simp
  finally have f: "first_after [\<lparr>start = None, end_time = Some ''2024-01-01T12:00:00''\<rparr>,
               \<lparr>start = Some ''2024-01-01T11:00:00'', end_time = None\<rparr>]
     (Some ''2024-01-01T10:00:00'') = Some (''2024-01-01T11:00:00'', None)"
    by simp
  from open_upgrade_cycle b open_upgrade_group open_upgrade_walk f
  show ?thesis by (intro conjI)
qed

text \<open>
  The claim as stated fails twice. An UPGRADE record without an \<open>end\<close> is selected as the
  station after VI1; and a filtered BBD record without a \<open>start\<close> is dropped by the cycle
  restriction, so the station dictionary has no BBD entry.
\<close>

theorem missing_time_counterexample:
  "is_workstation (workstation_record ''UPGRADE'' (Some ''2024-01-01T11:00:00'') None) \<and>
   history_station_end_time
     (workstation_record ''UPGRADE'' (Some ''2024-01-01T11:00:00'') None) = None \<and>
   process_raw_timestamps fromisoformat ''SN1'' open_upgrade_history =
     Inr \<lparr>serial_number = ''SN1'', vi1_end = Some ''2024-01-01T10:00:00'',
          vi1_next_station = Some ''UPGRADE'', vi1_next_start = Some ''2024-01-01T11:00:00'',
          upgrade_end = None, bbd_assy_station = None, bbd_assy_start = None,
          bbd_assy_end = None, fla_chiflash_station = None, fla_chiflash_start = None,
          packing_end = None, shipping_start = None\<rparr> \<and>
   is_workstation (workstation_record ''BBD'' None (Some ''2024-01-01T12:00:00'')) \<and>
   filter is_workstation no_start_history = no_start_history \<and>
   current_cycle fromisoformat no_start_history =
     Inr [workstation_record ''RECEIVE'' (Some ''2024-01-01T08:00:00'')
            (Some ''2024-01-01T08:30:00'')] \<and>
   build_stations [workstation_record ''RECEIVE'' (Some ''2024-01-01T08:00:00'')
              (Some ''2024-01-01T08:30:00'')] Map.empty =
     Inr (grouped [workstation_record ''RECEIVE'' (Some ''2024-01-01T08:00:00'')
              (Some ''2024-01-01T08:30:00'')]) \<and>
   grouped [workstation_record ''RECEIVE'' (Some ''2024-01-01T08:00:00'')
              (Some ''2024-01-01T08:30:00'')] ''BBD'' = None"
proof -
  have a: "is_workstation (workstation_record ''UPGRADE'' (Some ''2024-01-01T11:00:00'') None)"
    by (simp add: is_workstation_def workstation_record_def truthy_def)
  have b: "history_station_end_time
     (workstation_record ''UPGRADE'' (Some ''2024-01-01T11:00:00'') None) = None"
    by (simp add: workstation_record_def)
  have c: "is_workstation (workstation_record ''BBD'' None (Some ''2024-01-01T12:00:00''))"
    by (simp add: is_workstation_def workstation_record_def truthy_def)
  from a b open_upgrade_result c no_start_filtered no_start_cycle no_start_build no_start_group
  show ?thesis by (intro conjI)
qed

section \<open>Exceptions that escape\<close>

text \<open>
  C3. The claim is that \<open>process_raw_timestamps\<close> returns normally on every input. It
  does not: a RECEIVE record whose start carries an offset (here \<open>Z\<close>) parses to an aware
  \<open>datetime\<close>, a record without a start parses to the naive \<open>datetime.min\<close>, and the
  comparison of line 135 raises \<open>TypeError\<close>. (\<open>process_raises_only_TypeError\<close> and
  \<open>process_returns_iff\<close> above say that this is the only way the function fails.)
\<close>

theorem null_start_after_aware_receive_raises:
  "process_raw_timestamps fromisoformat ''SN1'' aware_receive_history = Inl TypeError"
  by code_simp

text \<open>
  C9. The claim is that \<open>convert_to_raw_timestamp\<close> formats every timestamp it parses. It
  does not in the first eight hours of year 1: the subtraction of eight hours raises
  \<open>OverflowError\<close>, which the \<open>except\<close> clause does not catch. (\<open>convert_below_range\<close>
  above states the failure for every parser, \<open>convert_in_range\<close> the formatted result
  from year 1000 on, and \<open>convert_unparseable\<close> the unchanged input.)
\<close>

theorem convert_overflows_in_first_hours:
  "convert_to_raw_timestamp fromisoformat ''0001-01-01T03:00:00'' = Inl OverflowError"
  by code_simp

end
